theory Spec2Isabelle
  imports Main "HOL-Library.Sublist" "HOL-Library.AList"
begin

section \<open>The single-table store\<close>

text \<open>
  All entities live in one table addressed by the pair (PK, SK). An item is a list of
  named attribute values; the attribute value kinds are the ones the sources read and
  write: strings, numbers, booleans and nested maps.
\<close>

datatype attr = AttrS string | AttrN int | AttrBOOL bool | AttrM "(string \<times> attr) list"

type_synonym item = "(string \<times> attr) list"

type_synonym key = "string \<times> string"

type_synonym store = "(key \<times> item) list"

text \<open>\<open>image.name?.S\<close>: the string of a string-valued attribute, undefined otherwise.\<close>

definition attr_S :: "item \<Rightarrow> string \<Rightarrow> string option" where
  "attr_S img k = (case map_of img k of Some (AttrS s) \<Rightarrow> Some s | _ \<Rightarrow> None)"

section \<open>The stream handler (lambdas/nodejs/stream-handler/src/index.ts)\<close>

datatype event_name = INSERT | MODIFY | REMOVE

record stream_data =
  NewImage :: "item option"
  OldImage :: "item option"

record stream_record =
  eventName :: "event_name option"
  dynamodb :: "stream_data option"

record status_detail =
  booking_id :: string
  old_status :: "string option"
  new_status :: "string option"
  timestamp :: string

record put_entry =
  EventBusName :: string
  Source :: string
  DetailType :: string
  Detail :: status_detail

text \<open>\<open>x || ''\<close> on a string that may be undefined.\<close>

definition or_empty :: "string option \<Rightarrow> string" where
  "or_empty x = (case x of Some s \<Rightarrow> s | None \<Rightarrow> [])"

text \<open>JavaScript truthiness of a string that may be undefined: defined and not empty.\<close>

definition truthy :: "string option \<Rightarrow> bool" where
  "truthy x = (case x of Some s \<Rightarrow> s \<noteq> [] | None \<Rightarrow> False)"

text \<open>\<open>s.replace(pat, rep)\<close> with a string pattern: the first occurrence only.\<close>

fun replace_first :: "string \<Rightarrow> string \<Rightarrow> string \<Rightarrow> string" where
  "replace_first pat rep [] = (if pat = [] then rep else [])"
| "replace_first pat rep (c # cs) =
     (if prefix pat (c # cs) then rep @ drop (length pat) (c # cs)
      else c # replace_first pat rep cs)"

definition status_changed_entry ::
  "string \<Rightarrow> string \<Rightarrow> string \<Rightarrow> string option \<Rightarrow> string option \<Rightarrow> put_entry" where
  "status_changed_entry bus now pk oldStatus newStatus =
     \<lparr>EventBusName = bus,
      Source = ''flightpulse.stream-handler'',
      DetailType = ''booking.status_changed'',
      Detail = \<lparr>booking_id = replace_first ''BOOKING#'' [] pk,
                old_status = oldStatus,
                new_status = newStatus,
                timestamp = now\<rparr>\<rparr>"

text \<open>
  The body of the \<open>try\<close> block for one record, up to the call of
  \<open>eventBridge.send\<close>: the entry to send, or none.
\<close>

definition process_record :: "string \<Rightarrow> string \<Rightarrow> stream_record \<Rightarrow> put_entry option" where
  "process_record bus now r =
     (if eventName r = Some MODIFY \<or> eventName r = Some INSERT then
        (case (case dynamodb r of None \<Rightarrow> None | Some d \<Rightarrow> NewImage d) of
           None \<Rightarrow> None
         | Some newImage \<Rightarrow>
             (let oldImage = (case dynamodb r of None \<Rightarrow> None | Some d \<Rightarrow> OldImage d);
                  pk = or_empty (attr_S newImage ''PK'');
                  sk = or_empty (attr_S newImage ''SK'')
              in if prefix ''BOOKING#'' pk \<and> sk = ''METADATA'' then
                   (let newStatus = attr_S newImage ''booking_status'';
                        oldStatus = (case oldImage of None \<Rightarrow> None
                                     | Some oi \<Rightarrow> attr_S oi ''booking_status'')
                    in if truthy newStatus \<and> newStatus \<noteq> oldStatus
                       then Some (status_changed_entry bus now pk oldStatus newStatus)
                       else None)
                 else None))
      else None)"

text \<open>
  What one invocation does: the entries handed to \<open>eventBridge.send\<close> in order, the
  ones the bus accepted, and the records the \<open>catch\<close> block logged.
\<close>

record handler_out =
  sent :: "put_entry list"
  delivered :: "put_entry list"
  logged_errors :: "stream_record list"

text \<open>
  The \<open>for\<close> loop over \<open>event.Records\<close>. \<open>send_ok e\<close> tells whether the bus accepts
  \<open>e\<close>; when it does not, \<open>send\<close> throws, the \<open>catch\<close> block logs the record and the
  loop goes on. \<open>clock i\<close> is the time read while record \<open>i\<close> is processed.
\<close>

fun handler_loop ::
  "(put_entry \<Rightarrow> bool) \<Rightarrow> string \<Rightarrow> (nat \<Rightarrow> string) \<Rightarrow> nat \<Rightarrow> stream_record list
     \<Rightarrow> handler_out \<Rightarrow> handler_out" where
  "handler_loop send_ok bus clock i [] out = out"
| "handler_loop send_ok bus clock i (r # rs) out =
     (case process_record bus (clock i) r of
        None \<Rightarrow> handler_loop send_ok bus clock (Suc i) rs out
      | Some e \<Rightarrow>
          (if send_ok e
           then handler_loop send_ok bus clock (Suc i) rs
                  (out\<lparr>sent := sent out @ [e], delivered := delivered out @ [e]\<rparr>)
           else handler_loop send_ok bus clock (Suc i) rs
                  (out\<lparr>sent := sent out @ [e], logged_errors := logged_errors out @ [r]\<rparr>)))"

definition stream_handler ::
  "(put_entry \<Rightarrow> bool) \<Rightarrow> string \<Rightarrow> (nat \<Rightarrow> string) \<Rightarrow> stream_record list \<Rightarrow> handler_out" where
  "stream_handler send_ok bus clock recs =
     handler_loop send_ok bus clock 0 recs \<lparr>sent = [], delivered = [], logged_errors = []\<rparr>"

text \<open>The new image, the key strings and the two statuses of a record, as the handler reads them.\<close>

definition new_image :: "stream_record \<Rightarrow> item option" where
  "new_image r = (case dynamodb r of None \<Rightarrow> None | Some d \<Rightarrow> NewImage d)"

definition old_booking_status :: "stream_record \<Rightarrow> string option" where
  "old_booking_status r =
     (case dynamodb r of None \<Rightarrow> None
      | Some d \<Rightarrow> (case OldImage d of None \<Rightarrow> None | Some oi \<Rightarrow> attr_S oi ''booking_status''))"

text \<open>
  The condition in the words of the claim: an INSERT or MODIFY of an item whose PK
  begins with BOOKING# and whose SK is METADATA, whose new booking_status is present and
  differs from the old image's.
\<close>

definition status_change_claimed :: "stream_record \<Rightarrow> bool" where
  "status_change_claimed r =
     ((eventName r = Some INSERT \<or> eventName r = Some MODIFY) \<and>
      (case new_image r of
         None \<Rightarrow> False
       | Some img \<Rightarrow>
           prefix ''BOOKING#'' (or_empty (attr_S img ''PK'')) \<and>
           or_empty (attr_S img ''SK'') = ''METADATA'' \<and>
           attr_S img ''booking_status'' \<noteq> None \<and>
           attr_S img ''booking_status'' \<noteq> old_booking_status r))"

text \<open>The same condition with "present" read as the code reads it: a non-empty string.\<close>

definition status_change :: "stream_record \<Rightarrow> bool" where
  "status_change r =
     ((eventName r = Some INSERT \<or> eventName r = Some MODIFY) \<and>
      (case new_image r of
         None \<Rightarrow> False
       | Some img \<Rightarrow>
           prefix ''BOOKING#'' (or_empty (attr_S img ''PK'')) \<and>
           or_empty (attr_S img ''SK'') = ''METADATA'' \<and>
           (case attr_S img ''booking_status'' of None \<Rightarrow> False | Some s \<Rightarrow> s \<noteq> []) \<and>
           attr_S img ''booking_status'' \<noteq> old_booking_status r))"

text \<open>The entry the handler builds for a record that passes the condition.\<close>

definition entry_of :: "string \<Rightarrow> string \<Rightarrow> stream_record \<Rightarrow> put_entry" where
  "entry_of bus now r =
     (case new_image r of
        None \<Rightarrow> status_changed_entry bus now [] None None
      | Some img \<Rightarrow>
          status_changed_entry bus now (or_empty (attr_S img ''PK''))
            (old_booking_status r) (attr_S img ''booking_status''))"

text \<open>Sample stream records: a MODIFY of booking \<open>b\<close> from status \<open>old\<close> to status \<open>new\<close>.\<close>

definition booking_image :: "string \<Rightarrow> string \<Rightarrow> item" where
  "booking_image b s = [(''PK'', AttrS (''BOOKING#'' @ b)), (''SK'', AttrS ''METADATA''),
                        (''booking_status'', AttrS s)]"

definition modify_record :: "string \<Rightarrow> string \<Rightarrow> string \<Rightarrow> stream_record" where
  "modify_record b old new =
     \<lparr>eventName = Some MODIFY,
      dynamodb = Some \<lparr>NewImage = Some (booking_image b new),
                       OldImage = Some (booking_image b old)\<rparr>\<rparr>"

section \<open>Event routing (the EventBridge rules of flightpulse-stack.ts)\<close>

datatype workflow_id = DelayNotificationWorkflow | CancellationWorkflow | GateChangeWorkflow

datatype rule_target = SfnStateMachine workflow_id | CloudWatchLogGroup string

text \<open>An event pattern lists, for each field it constrains, the values it allows.\<close>

record event_pattern =
  source :: "string list option"
  detailType :: "string list option"

record rule =
  ruleName :: string
  eventPattern :: event_pattern
  targets :: "rule_target list"

record bus_event =
  event_source :: string
  event_detail_type :: string

definition allows :: "string list option \<Rightarrow> string \<Rightarrow> bool" where
  "allows vs v = (case vs of None \<Rightarrow> True | Some xs \<Rightarrow> v \<in> set xs)"

definition matches :: "event_pattern \<Rightarrow> bus_event \<Rightarrow> bool" where
  "matches pat ev = (allows (source pat) (event_source ev) \<and> allows (detailType pat) (event_detail_type ev))"

definition workflow_rule :: "string \<Rightarrow> string \<Rightarrow> workflow_id \<Rightarrow> rule" where
  "workflow_rule name dt w =
     \<lparr>ruleName = name,
      eventPattern = \<lparr>source = Some [''flightpulse.kafka-consumer''], detailType = Some [dt]\<rparr>,
      targets = [SfnStateMachine w]\<rparr>"

definition notification_rule :: "string \<Rightarrow> string \<Rightarrow> string \<Rightarrow> rule" where
  "notification_rule name dt lg =
     \<lparr>ruleName = name,
      eventPattern = \<lparr>source = None, detailType = Some [dt]\<rparr>,
      targets = [CloudWatchLogGroup lg]\<rparr>"

definition rules :: "rule list" where
  "rules =
     [workflow_rule ''DelayMinorRule'' ''flight.delay.minor'' DelayNotificationWorkflow,
      workflow_rule ''DelayMajorRule'' ''flight.delay.major'' DelayNotificationWorkflow,
      workflow_rule ''DelaySevereRule'' ''flight.delay.severe'' DelayNotificationWorkflow,
      workflow_rule ''CancellationRule'' ''flight.cancelled'' CancellationWorkflow,
      workflow_rule ''GateChangeRule'' ''flight.gate_change'' GateChangeWorkflow,
      notification_rule ''NotificationEmailRule'' ''notification.email''
        ''/flightpulse/notifications/email'',
      notification_rule ''NotificationSmsRule'' ''notification.sms''
        ''/flightpulse/notifications/sms'']"

fun state_machines :: "rule_target list \<Rightarrow> workflow_id list" where
  "state_machines [] = []"
| "state_machines (SfnStateMachine w # ts) = w # state_machines ts"
| "state_machines (CloudWatchLogGroup lg # ts) = state_machines ts"

text \<open>The workflows started for an event: the state machine targets of every matching rule.\<close>

definition selected_workflows :: "bus_event \<Rightarrow> workflow_id list" where
  "selected_workflows ev =
     concat (map (\<lambda>r. state_machines (targets r)) (filter (\<lambda>r. matches (eventPattern r) ev) rules))"

definition trigger :: "string \<Rightarrow> bus_event" where
  "trigger dt = \<lparr>event_source = ''flightpulse.kafka-consumer'', event_detail_type = dt\<rparr>"

text \<open>The routing in the words of the claim.\<close>

definition claimed_routes :: "(string \<times> workflow_id) list" where
  "claimed_routes =
     [(''flight.delay.minor'', DelayNotificationWorkflow),
      (''flight.delay.major'', DelayNotificationWorkflow),
      (''flight.delay.severe'', DelayNotificationWorkflow),
      (''flight.cancelled'', CancellationWorkflow),
      (''flight.gate_change'', GateChangeWorkflow)]"

section \<open>The read API (lambdas/nodejs/api-handlers/src/index.ts)\<close>

text \<open>
  JavaScript values as the handler builds and serialises them. The document client hands
  an item over as a plain object: \<open>unmarshal\<close> is that conversion.
\<close>

datatype json = JNull | JBool bool | JNum int | JStr string | JArr "json list"
  | JObj "(string \<times> json) list"

primrec unmarshal :: "attr \<Rightarrow> json" where
  "unmarshal (AttrS s) = JStr s"
| "unmarshal (AttrN n) = JNum n"
| "unmarshal (AttrBOOL b) = JBool b"
| "unmarshal (AttrM m) = JObj (map (map_prod id unmarshal) m)"

definition unmarshal_item :: "item \<Rightarrow> (string \<times> json) list" where
  "unmarshal_item it = map (map_prod id unmarshal) it"

text \<open>\<open>GetCommand\<close>: the item stored under a key, if any.\<close>

definition get_item :: "store \<Rightarrow> key \<Rightarrow> item option" where
  "get_item tbl k = map_of tbl k"

text \<open>\<open>QueryCommand\<close> with \<open>PK = :pk AND begins_with(SK, :sk)\<close>.\<close>

definition query_prefix :: "store \<Rightarrow> string \<Rightarrow> string \<Rightarrow> item list" where
  "query_prefix tbl pk sk = map snd (filter (\<lambda>((p, s), it). p = pk \<and> prefix sk s) tbl)"

text \<open>\<open>QueryCommand\<close> on index GSI1 with \<open>GSI1PK = :status\<close>.\<close>

definition query_gsi1 :: "store \<Rightarrow> string \<Rightarrow> item list" where
  "query_gsi1 tbl st = map snd (filter (\<lambda>(k, it). map_of it ''GSI1PK'' = Some (AttrS st)) tbl)"

record api_event =
  path :: string
  httpMethod :: string
  pathParameters :: "(string \<times> string) list option"
  queryStringParameters :: "(string \<times> string) list option"

text \<open>The response; \<open>body\<close> is the value that \<open>JSON.stringify\<close> serialises.\<close>

record api_response =
  statusCode :: nat
  headers :: "(string \<times> string) list"
  body :: json

text \<open>An object literal: a property whose value is undefined is left out by \<open>JSON.stringify\<close>.\<close>

definition obj :: "(string \<times> json option) list \<Rightarrow> json" where
  "obj fs = JObj (List.map_filter (\<lambda>(k, v). case v of None \<Rightarrow> None | Some x \<Rightarrow> Some (k, x)) fs)"

definition json_response :: "nat \<Rightarrow> json \<Rightarrow> api_response" where
  "json_response code b =
     \<lparr>statusCode = code, headers = [(''Content-Type'', ''application/json'')], body = b\<rparr>"

text \<open>\<open>x || 0\<close>: the falsy values give 0.\<close>

definition or_zero :: "json option \<Rightarrow> json" where
  "or_zero v =
     (case v of
        None \<Rightarrow> JNum 0
      | Some JNull \<Rightarrow> JNum 0
      | Some (JBool b) \<Rightarrow> (if b then JBool b else JNum 0)
      | Some (JNum n) \<Rightarrow> JNum n
      | Some (JStr s) \<Rightarrow> (if s = [] then JNum 0 else JStr s)
      | Some x \<Rightarrow> x)"

text \<open>\<open>/^\/pre\/[^\/]+$/\<close>: the prefix, then one or more characters other than a slash.\<close>

definition match_segment :: "string \<Rightarrow> string \<Rightarrow> bool" where
  "match_segment pre p =
     (prefix pre p \<and> drop (length pre) p \<noteq> [] \<and> CHR ''/'' \<notin> set (drop (length pre) p))"

text \<open>\<open>/^\/pre\/[^\/]+\/suf$/\<close>.\<close>

definition match_segment_then :: "string \<Rightarrow> string \<Rightarrow> string \<Rightarrow> bool" where
  "match_segment_then pre suf p =
     (prefix pre p \<and> suffix suf (drop (length pre) p) \<and>
      length pre + length suf < length p \<and>
      CHR ''/'' \<notin> set (take (length p - length pre - length suf) (drop (length pre) p)))"

text \<open>A path parameter inside a template string: an absent one prints as undefined.\<close>

definition path_param :: "api_event \<Rightarrow> string \<Rightarrow> string" where
  "path_param ev k =
     (case map_of (case pathParameters ev of None \<Rightarrow> [] | Some ps \<Rightarrow> ps) k of
        None \<Rightarrow> ''undefined'' | Some v \<Rightarrow> v)"

text \<open>\<open>const { email, phone, ...safeData } = result.Item\<close>.\<close>

definition safeData :: "(string \<times> json) list \<Rightarrow> (string \<times> json) list" where
  "safeData it = filter (\<lambda>(k, v). k \<noteq> ''email'' \<and> k \<noteq> ''phone'') it"

definition booking_refs :: "string \<Rightarrow> item list \<Rightarrow> json" where
  "booking_refs other its =
     JArr (map (\<lambda>it. obj [(''booking_id'', map_of (unmarshal_item it) ''booking_id''),
                           (other, map_of (unmarshal_item it) other)]) its)"

text \<open>
  The handler. \<open>db_error\<close> is the message of the error the table client throws, if it
  throws; the \<open>catch\<close> block turns it into a 500 response. \<open>now\<close> is the clock.
\<close>

definition api_handler :: "string option \<Rightarrow> string \<Rightarrow> store \<Rightarrow> api_event \<Rightarrow> api_response" where
  "api_handler db_error now tbl ev =
     (let failed = (\<lambda>msg. json_response 500 (obj [(''error'', Some (JStr msg))]));
          GET = (httpMethod ev = ''GET'')
      in
      if path ev = ''/health'' \<and> GET then
        json_response 200 (obj [(''status'', Some (JStr ''healthy'')),
                                (''timestamp'', Some (JStr now)),
                                (''service'', Some (JStr ''flightpulse-api''))])
      else if match_segment ''/flights/'' (path ev) \<and> GET then
        (case db_error of Some msg \<Rightarrow> failed msg
         | None \<Rightarrow>
           (case get_item tbl (''FLIGHT#'' @ path_param ev ''flightId'', ''METADATA'') of
              None \<Rightarrow> json_response 404 (obj [(''error'', Some (JStr ''Flight not found''))])
            | Some it \<Rightarrow>
                (let Item = unmarshal_item it in
                 json_response 200
                   (obj [(''flight_id'', map_of Item ''flight_id''),
                         (''origin'', map_of Item ''origin''),
                         (''destination'', map_of Item ''destination''),
                         (''scheduled_departure'', map_of Item ''scheduled_departure''),
                         (''scheduled_arrival'', map_of Item ''scheduled_arrival''),
                         (''status'', map_of Item ''status''),
                         (''gate'', map_of Item ''gate''),
                         (''delay_minutes'', Some (or_zero (map_of Item ''delay_minutes''))),
                         (''delay_reason'', map_of Item ''delay_reason'')]))))
      else if path ev = ''/flights'' \<and> GET then
        (case (case queryStringParameters ev of None \<Rightarrow> None | Some qs \<Rightarrow> map_of qs ''status'') of
           None \<Rightarrow> json_response 400 (obj [(''error'', Some (JStr ''status query parameter required''))])
         | Some st \<Rightarrow>
             if st = [] then
               json_response 400 (obj [(''error'', Some (JStr ''status query parameter required''))])
             else
               (case db_error of Some msg \<Rightarrow> failed msg
                | None \<Rightarrow>
                    json_response 200
                      (obj [(''flights'', Some (JArr (map (\<lambda>it. JObj (unmarshal_item it)) (query_gsi1 tbl st)))),
                            (''count'', Some (JNum (int (length (query_gsi1 tbl st)))))])))
      else if match_segment_then ''/flights/'' ''/bookings'' (path ev) \<and> GET then
        (case db_error of Some msg \<Rightarrow> failed msg
         | None \<Rightarrow>
             (let Items = query_prefix tbl (''FLIGHT#'' @ path_param ev ''flightId'') ''BOOKING#'' in
              json_response 200
                (obj [(''bookings'', Some (booking_refs ''passenger_id'' Items)),
                      (''count'', Some (JNum (int (length Items))))])))
      else if match_segment ''/passengers/'' (path ev) \<and> GET then
        (case db_error of Some msg \<Rightarrow> failed msg
         | None \<Rightarrow>
           (case get_item tbl (''PASSENGER#'' @ path_param ev ''passengerId'', ''METADATA'') of
              None \<Rightarrow> json_response 404 (obj [(''error'', Some (JStr ''Passenger not found''))])
            | Some it \<Rightarrow> json_response 200 (JObj (safeData (unmarshal_item it)))))
      else if match_segment_then ''/passengers/'' ''/bookings'' (path ev) \<and> GET then
        (case db_error of Some msg \<Rightarrow> failed msg
         | None \<Rightarrow>
             (let Items = query_prefix tbl (''PASSENGER#'' @ path_param ev ''passengerId'') ''BOOKING#'' in
              json_response 200
                (obj [(''bookings'', Some (booking_refs ''flight_id'' Items)),
                      (''count'', Some (JNum (int (length Items))))])))
      else if match_segment ''/bookings/'' (path ev) \<and> GET then
        (case db_error of Some msg \<Rightarrow> failed msg
         | None \<Rightarrow>
           (case get_item tbl (''BOOKING#'' @ path_param ev ''bookingId'', ''METADATA'') of
              None \<Rightarrow> json_response 404 (obj [(''error'', Some (JStr ''Booking not found''))])
            | Some it \<Rightarrow> json_response 200 (JObj (unmarshal_item it))))
      else json_response 404 (obj [(''error'', Some (JStr ''Not found''))]))"

text \<open>The request \<open>GET /passengers/{passengerId}\<close> as the gateway delivers it.\<close>

definition get_passenger_request :: "string \<Rightarrow> api_event" where
  "get_passenger_request pid =
     \<lparr>path = ''/passengers/'' @ pid, httpMethod = ''GET'',
      pathParameters = Some [(''passengerId'', pid)], queryStringParameters = None\<rparr>"

text \<open>The top-level field names of a response body.\<close>

definition body_fields :: "json \<Rightarrow> string list" where
  "body_fields b = (case b of JObj fs \<Rightarrow> map fst fs | _ \<Rightarrow> [])"

text \<open>Two records that differ at most in their email and phone attributes.\<close>

definition same_but_contact :: "item \<Rightarrow> item \<Rightarrow> bool" where
  "same_but_contact a b =
     (filter (\<lambda>(k, v). k \<noteq> ''email'' \<and> k \<noteq> ''phone'') a =
      filter (\<lambda>(k, v). k \<noteq> ''email'' \<and> k \<noteq> ''phone'') b)"

text \<open>A sample passenger record.\<close>

definition passenger_item :: "string \<Rightarrow> string \<Rightarrow> string \<Rightarrow> bool \<Rightarrow> bool \<Rightarrow> item" where
  "passenger_item pid mail phone wants_email wants_sms =
     [(''PK'', AttrS (''PASSENGER#'' @ pid)), (''SK'', AttrS ''METADATA''),
      (''passenger_id'', AttrS pid), (''first_name'', AttrS ''Ada''),
      (''email'', AttrS mail), (''phone'', AttrS phone),
      (''notification_preferences'',
         AttrM [(''email'', AttrBOOL wants_email), (''sms'', AttrBOOL wants_sms)])]"

section \<open>The workflow definitions (infrastructure/lib/flightpulse-stack.ts)\<close>

text \<open>
  The stack declares its three workflows as graphs of states. The states, their
  parameters and the way they are chained are transcribed below; JSON paths are kept as
  the place they read: a field of the trigger's detail (\<open>$.detail.f\<close>, also reached as
  \<open>$$.Execution.Input.detail.f\<close>) or a field of the item a Map iteration works on
  (\<open>$.f\<close>).
\<close>

datatype json_path = DetailField string | ItemField string

text \<open>
  The values of an update expression: \<open>fromString\<close> of a constant, \<open>fromString\<close> of the
  string at a path, \<open>numberFromString\<close> of the number at a path.
\<close>

datatype value_source = ConstString string | StringAt json_path | NumberAt json_path

text \<open>The fields of a published event: an attribute of the passenger item or a part of the generated message.\<close>

datatype field_source = PassengerAttr string | MessagePart string

datatype task =
    DynamoQuery string json_path string
  | DynamoUpdateItem string json_path string "(string \<times> value_source) list"
  | DynamoGetItem string json_path string
  | LambdaInvoke string
  | EventBridgePutEvents string "(string \<times> field_source) list"
  | SnsPublish string

datatype condition = NumberGreaterThanCount int | BooleanEqualsPreference string bool

text \<open>
  \<open>Next a b\<close> is \<open>a.next(b)\<close> and \<open>Catch a h\<close> is \<open>a.addCatch(h)\<close>. A Map state carries its
  \<open>maxConcurrency\<close> and the item fields its \<open>parameters\<close> select (none: the item is
  passed on unchanged).
\<close>

datatype step =
    Task string task
  | Pass string
  | Succeed string
  | Choice string condition step step
  | Parallel string "step list"
  | MapState string nat "string list" step
  | Next step step
  | Catch step step

definition getBookings :: step where
  "getBookings = Task ''GetAffectedBookings'' (DynamoQuery ''FLIGHT#'' (DetailField ''flight_id'') ''BOOKING#'')"

definition getPassenger :: step where
  "getPassenger =
     Task ''GetPassengerDetails'' (DynamoGetItem ''PASSENGER#'' (ItemField ''passenger_id'') ''METADATA'')"

definition generateMessage :: "string \<Rightarrow> step" where
  "generateMessage messageType = Task ''GeneratePersonalizedMessage'' (LambdaInvoke messageType)"

definition sendEmail :: step where
  "sendEmail =
     Choice ''CheckEmailPreference'' (BooleanEqualsPreference ''email'' True)
       (Task ''PublishEmailEvent''
          (EventBridgePutEvents ''notification.email''
             [(''to'', PassengerAttr ''email''),
              (''subject'', MessagePart ''email_subject''),
              (''body'', MessagePart ''email_body'')]))
       (Pass ''SkipEmail'')"

definition sendSms :: step where
  "sendSms =
     Choice ''CheckSmsPreference'' (BooleanEqualsPreference ''sms'' True)
       (Task ''PublishSmsEvent''
          (EventBridgePutEvents ''notification.sms''
             [(''to'', PassengerAttr ''phone''),
              (''message'', MessagePart ''sms_body'')]))
       (Pass ''SkipSms'')"

definition sendNotifications :: step where
  "sendNotifications = Parallel ''SendNotifications'' [sendEmail, sendSms]"

definition processBooking :: "string \<Rightarrow> step" where
  "processBooking messageType = Next (Next getPassenger (generateMessage messageType)) sendNotifications"

definition createProcessBookingsMap :: "string \<Rightarrow> step" where
  "createProcessBookingsMap messageType =
     MapState ''ProcessBookingsInParallel'' 10 [''passenger_id'', ''booking_id'']
       (processBooking messageType)"

definition notifyFailure :: step where
  "notifyFailure = Task ''NotifyDelayFailure'' (SnsPublish ''DelayNotification'')"

definition checkBookings :: step where
  "checkBookings =
     Choice ''CheckBookingsExist'' (NumberGreaterThanCount 0)
       (createProcessBookingsMap ''DELAY_NOTIFICATION'')
       (Pass ''NoBookingsFound'')"

definition updateFlightDelayed :: step where
  "updateFlightDelayed =
     Task ''UpdateFlightStatus''
       (DynamoUpdateItem ''FLIGHT#'' (DetailField ''flight_id'') ''METADATA''
          [(''status'', ConstString ''DELAYED''),
           (''delay_minutes'', NumberAt (DetailField ''delay_minutes'')),
           (''delay_reason'', StringAt (DetailField ''reason'')),
           (''GSI1PK'', ConstString ''DELAYED'')])"

definition parallelExecution :: step where
  "parallelExecution =
     Catch (Parallel ''ProcessAndUpdate'' [checkBookings, Catch updateFlightDelayed notifyFailure])
       notifyFailure"

definition createDelayWorkflow :: step where
  "createDelayWorkflow =
     Next (Next (Catch getBookings notifyFailure) parallelExecution) (Succeed ''WorkflowComplete'')"

definition updateBookingStatus :: step where
  "updateBookingStatus =
     Task ''UpdateBookingStatus''
       (DynamoUpdateItem ''BOOKING#'' (ItemField ''booking_id'') ''METADATA''
          [(''booking_status'', ConstString ''NEEDS_REBOOKING''),
           (''GSI2PK'', ConstString ''NEEDS_REBOOKING'')])"

definition markForRebooking :: step where
  "markForRebooking = MapState ''MarkBookingsForRebooking'' 10 [] updateBookingStatus"

definition updateFlightCancelled :: step where
  "updateFlightCancelled =
     Task ''UpdateFlightStatus''
       (DynamoUpdateItem ''FLIGHT#'' (DetailField ''flight_id'') ''METADATA''
          [(''status'', ConstString ''CANCELLED''),
           (''GSI1PK'', ConstString ''CANCELLED'')])"

definition createCancellationWorkflow :: step where
  "createCancellationWorkflow =
     Next (Next (Next (Next getBookings markForRebooking)
                   (createProcessBookingsMap ''CANCELLATION_NOTIFICATION''))
             updateFlightCancelled)
       (Succeed ''WorkflowComplete'')"

definition updateGate :: step where
  "updateGate =
     Task ''UpdateFlightGate''
       (DynamoUpdateItem ''FLIGHT#'' (DetailField ''flight_id'') ''METADATA''
          [(''gate'', StringAt (DetailField ''new_gate''))])"

definition createGateChangeWorkflow :: step where
  "createGateChangeWorkflow =
     Next (Next (Next updateGate getBookings)
             (createProcessBookingsMap ''GATE_CHANGE_NOTIFICATION''))
       (Succeed ''WorkflowComplete'')"

text \<open>The \<open>maxConcurrency\<close> of every Map state of a workflow.\<close>

fun map_limits :: "step \<Rightarrow> nat list" and map_limits_list :: "step list \<Rightarrow> nat list" where
  "map_limits (Task n t) = []"
| "map_limits (Pass n) = []"
| "map_limits (Succeed n) = []"
| "map_limits (Choice n c a b) = map_limits a @ map_limits b"
| "map_limits (Parallel n bs) = map_limits_list bs"
| "map_limits (MapState n k ps it) = k # map_limits it"
| "map_limits (Next a b) = map_limits a @ map_limits b"
| "map_limits (Catch a h) = map_limits a @ map_limits h"
| "map_limits_list [] = []"
| "map_limits_list (b # bs) = map_limits b @ map_limits_list bs"

section \<open>The workflow engine\<close>

text \<open>
  Modelled from the spec: the executor of workflow definitions. The stack only declares
  the workflows and hands them to an orchestration service, so the code that runs them
  is not part of the sources; what follows is the engine of section 4.1 of the
  specification. The context is a mapping that steps add to: a step's result is written
  at its own place and leaves the trigger payload and earlier results readable. A step
  without a catch handler passes its failure to its parent; a step with one hands the
  failure to the handler, after which the execution ends. A Parallel or Map step fails
  as soon as one branch or item fails. The failure kinds are the four of the
  specification; a lookup of a record that does not exist is RecordNotFound, and a path
  that does not resolve is ValidationFailed.

  Branches and items are run one after the other, in their order: one of the schedules
  the engine allows. The effects of a run are collected in a log, in the order they
  happen; an update is logged with the store it leaves, a call of the message generator
  with the store it finds.
\<close>

datatype error_kind = StoreUnavailable | RecordNotFound | ExternalCallFailed | ValidationFailed

record message =
  email_subject :: string
  email_body :: string
  sms_body :: string

record report =
  report_workflow :: string
  report_error :: error_kind
  report_cause :: string
  report_input :: item

datatype effect =
    Updated key item store
  | Generated string item store
  | Published string "(string \<times> string) list"
  | Reported report

datatype outcome = Continue | Ended | Failed error_kind string

record vars =
  detail :: item
  Items :: "item list option"
  Count :: "int option"
  map_item :: item
  Item :: "item option"
  MessageResult :: "message option"
  caught :: "(error_kind \<times> string) option"

text \<open>
  What lies outside the engine: \<open>faults n x\<close> is the failure, if any, that the task
  named \<open>n\<close> meets while working on Map item \<open>x\<close> (the empty item outside a Map);
  \<open>generate\<close> is the message generator, which always answers.
\<close>

record env =
  faults :: "string \<Rightarrow> item \<Rightarrow> error_kind option"
  generate :: "item \<Rightarrow> item \<Rightarrow> string \<Rightarrow> message"

definition read_path :: "json_path \<Rightarrow> vars \<Rightarrow> attr option" where
  "read_path p v =
     (case p of DetailField f \<Rightarrow> map_of (detail v) f | ItemField f \<Rightarrow> map_of (map_item v) f)"

definition string_at :: "json_path \<Rightarrow> vars \<Rightarrow> string option" where
  "string_at p v = (case read_path p v of Some (AttrS s) \<Rightarrow> Some s | _ \<Rightarrow> None)"

definition read_value :: "value_source \<Rightarrow> vars \<Rightarrow> attr option" where
  "read_value src v =
     (case src of
        ConstString c \<Rightarrow> Some (AttrS c)
      | StringAt p \<Rightarrow> map_option AttrS (string_at p v)
      | NumberAt p \<Rightarrow> (case read_path p v of Some (AttrN n) \<Rightarrow> Some (AttrN n) | _ \<Rightarrow> None))"

fun read_values :: "(string \<times> value_source) list \<Rightarrow> vars \<Rightarrow> item option" where
  "read_values [] v = Some []"
| "read_values ((a, src) # rest) v =
     (case read_value src v of
        None \<Rightarrow> None
      | Some x \<Rightarrow> (case read_values rest v of None \<Rightarrow> None | Some xs \<Rightarrow> Some ((a, x) # xs)))"

text \<open>
  \<open>UpdateItem\<close> with a \<open>SET\<close> expression: all assignments are applied to the item under
  the key in one write; an item that does not exist yet is created with its key.
\<close>

definition update_item :: "store \<Rightarrow> key \<Rightarrow> item \<Rightarrow> store" where
  "update_item tbl k sets =
     AList.update k
       (fold (\<lambda>(a, x). AList.update a x) sets
          (case map_of tbl k of
             None \<Rightarrow> [(''PK'', AttrS (fst k)), (''SK'', AttrS (snd k))]
           | Some it \<Rightarrow> it))
       tbl"

definition eval_condition :: "condition \<Rightarrow> vars \<Rightarrow> bool option" where
  "eval_condition c v =
     (case c of
        NumberGreaterThanCount n \<Rightarrow> map_option (\<lambda>k. n < k) (Count v)
      | BooleanEqualsPreference pref b \<Rightarrow>
          (case Item v of
             None \<Rightarrow> None
           | Some p \<Rightarrow>
               (case map_of p ''notification_preferences'' of
                  Some (AttrM m) \<Rightarrow>
                    (case map_of m pref of Some (AttrBOOL x) \<Rightarrow> Some (x = b) | _ \<Rightarrow> None)
                | _ \<Rightarrow> None)))"

definition read_field :: "field_source \<Rightarrow> vars \<Rightarrow> string option" where
  "read_field src v =
     (case src of
        PassengerAttr a \<Rightarrow> (case Item v of None \<Rightarrow> None | Some p \<Rightarrow> attr_S p a)
      | MessagePart m \<Rightarrow>
          (case MessageResult v of
             None \<Rightarrow> None
           | Some msg \<Rightarrow>
               if m = ''email_subject'' then Some (email_subject msg)
               else if m = ''email_body'' then Some (email_body msg)
               else if m = ''sms_body'' then Some (sms_body msg)
               else None))"

fun read_fields :: "(string \<times> field_source) list \<Rightarrow> vars \<Rightarrow> (string \<times> string) list option" where
  "read_fields [] v = Some []"
| "read_fields ((a, src) # rest) v =
     (case read_field src v of
        None \<Rightarrow> None
      | Some x \<Rightarrow> (case read_fields rest v of None \<Rightarrow> None | Some xs \<Rightarrow> Some ((a, x) # xs)))"

text \<open>One task, once the fault oracle has let it run.\<close>

definition exec_task :: "env \<Rightarrow> string \<Rightarrow> task \<Rightarrow> vars \<Rightarrow> store \<Rightarrow> outcome \<times> vars \<times> store \<times> effect list" where
  "exec_task e n t v tbl =
     (case t of
        DynamoQuery pre p sk \<Rightarrow>
          (case string_at p v of
             None \<Rightarrow> (Failed ValidationFailed n, v, tbl, [])
           | Some x \<Rightarrow>
               (Continue,
                v\<lparr>Items := Some (query_prefix tbl (pre @ x) sk),
                  Count := Some (int (length (query_prefix tbl (pre @ x) sk)))\<rparr>,
                tbl, []))
      | DynamoUpdateItem pre p sk sets \<Rightarrow>
          (case string_at p v of
             None \<Rightarrow> (Failed ValidationFailed n, v, tbl, [])
           | Some x \<Rightarrow>
               (case read_values sets v of
                  None \<Rightarrow> (Failed ValidationFailed n, v, tbl, [])
                | Some vals \<Rightarrow>
                    (Continue, v, update_item tbl (pre @ x, sk) vals,
                     [Updated (pre @ x, sk) vals (update_item tbl (pre @ x, sk) vals)])))
      | DynamoGetItem pre p sk \<Rightarrow>
          (case string_at p v of
             None \<Rightarrow> (Failed ValidationFailed n, v, tbl, [])
           | Some x \<Rightarrow>
               (case get_item tbl (pre @ x, sk) of
                  None \<Rightarrow> (Failed RecordNotFound n, v, tbl, [])
                | Some it \<Rightarrow> (Continue, v\<lparr>Item := Some it\<rparr>, tbl, [])))
      | LambdaInvoke mt \<Rightarrow>
          (case Item v of
             None \<Rightarrow> (Failed ValidationFailed n, v, tbl, [])
           | Some p \<Rightarrow>
               (Continue, v\<lparr>MessageResult := Some (generate e p (detail v) mt)\<rparr>, tbl,
                [Generated mt p tbl]))
      | EventBridgePutEvents dt fs \<Rightarrow>
          (case read_fields fs v of
             None \<Rightarrow> (Failed ValidationFailed n, v, tbl, [])
           | Some xs \<Rightarrow> (Continue, v, tbl, [Published dt xs]))
      | SnsPublish w \<Rightarrow>
          (case caught v of
             None \<Rightarrow> (Failed ValidationFailed n, v, tbl, [])
           | Some (k, c) \<Rightarrow>
               (Continue, v, tbl,
                [Reported \<lparr>report_workflow = w, report_error = k, report_cause = c,
                           report_input = detail v\<rparr>])))"

text \<open>The input of a Map iteration: the selected fields of the item, or the item itself.\<close>

fun select_parameters :: "string list \<Rightarrow> item \<Rightarrow> item option" where
  "select_parameters [] x = Some []"
| "select_parameters (p # ps) x =
     (case map_of x p of
        None \<Rightarrow> None
      | Some a \<Rightarrow> (case select_parameters ps x of None \<Rightarrow> None | Some r \<Rightarrow> Some ((p, a) # r)))"

definition iteration_input :: "string list \<Rightarrow> item \<Rightarrow> item option" where
  "iteration_input ps x = (if ps = [] then Some x else select_parameters ps x)"

type_synonym result = "outcome \<times> vars \<times> store \<times> effect list"

text \<open>\<open>a.next(b)\<close>: \<open>b\<close> runs on what \<open>a\<close> leaves, if \<open>a\<close> neither ended nor failed.\<close>

definition and_then :: "result \<Rightarrow> (vars \<Rightarrow> store \<Rightarrow> result) \<Rightarrow> result" where
  "and_then r f =
     (case r of
        (Continue, v', tbl', l) \<Rightarrow> (case f v' tbl' of (r', v'', tbl'', l') \<Rightarrow> (r', v'', tbl'', l @ l'))
      | (Ended, v', tbl', l) \<Rightarrow> (Ended, v', tbl', l)
      | (Failed k c, v', tbl', l) \<Rightarrow> (Failed k c, v', tbl', l))"

text \<open>
  \<open>a.addCatch(h)\<close>: a failure of \<open>a\<close> goes to \<open>h\<close> with the input of \<open>a\<close> and the error;
  the execution ends where the handler's chain ends.
\<close>

definition or_catch :: "vars \<Rightarrow> result \<Rightarrow> (vars \<Rightarrow> store \<Rightarrow> result) \<Rightarrow> result" where
  "or_catch v r h =
     (case r of
        (Failed k c, v', tbl', l) \<Rightarrow>
          (case h (v\<lparr>caught := Some (k, c)\<rparr>) tbl' of
             (Continue, v'', tbl'', l') \<Rightarrow> (Ended, v'', tbl'', l @ l')
           | (Ended, v'', tbl'', l') \<Rightarrow> (Ended, v'', tbl'', l @ l')
           | (Failed k' c', v'', tbl'', l') \<Rightarrow> (Failed k' c', v'', tbl'', l @ l'))
      | (Continue, v', tbl', l) \<Rightarrow> (Continue, v', tbl', l)
      | (Ended, v', tbl', l) \<Rightarrow> (Ended, v', tbl', l))"

text \<open>
  The branches of a Parallel state, or the iterations of a Map state, each on the store
  the one before it left: the first failure fails the whole state.
\<close>

fun run_all :: "(store \<Rightarrow> result) list \<Rightarrow> store \<Rightarrow> outcome \<times> store \<times> effect list" where
  "run_all [] tbl = (Continue, tbl, [])"
| "run_all (f # fs) tbl =
     (case f tbl of
        (Failed k c, v', tbl', l) \<Rightarrow> (Failed k c, tbl', l)
      | (Continue, v', tbl', l) \<Rightarrow>
          (case run_all fs tbl' of (r, tbl'', l') \<Rightarrow> (r, tbl'', l @ l'))
      | (Ended, v', tbl', l) \<Rightarrow>
          (case run_all fs tbl' of (r, tbl'', l') \<Rightarrow> (r, tbl'', l @ l')))"

definition joined :: "vars \<Rightarrow> outcome \<times> store \<times> effect list \<Rightarrow> result" where
  "joined v r = (case r of (r', tbl', l) \<Rightarrow> (r', v, tbl', l))"

text \<open>One Map iteration on item \<open>x\<close>.\<close>

definition iteration :: "string \<Rightarrow> string list \<Rightarrow> vars \<Rightarrow> (vars \<Rightarrow> store \<Rightarrow> result) \<Rightarrow> item \<Rightarrow> store \<Rightarrow> result" where
  "iteration n ps v f x tbl =
     (case iteration_input ps x of
        None \<Rightarrow> (Failed ValidationFailed n, v, tbl, [])
      | Some y \<Rightarrow> f (v\<lparr>map_item := y\<rparr>) tbl)"

fun exec :: "env \<Rightarrow> step \<Rightarrow> vars \<Rightarrow> store \<Rightarrow> result" where
  "exec e (Task n t) v tbl =
     (case faults e n (map_item v) of
        Some k \<Rightarrow> (Failed k n, v, tbl, [])
      | None \<Rightarrow> exec_task e n t v tbl)"
| "exec e (Pass n) v tbl = (Continue, v, tbl, [])"
| "exec e (Succeed n) v tbl = (Ended, v, tbl, [])"
| "exec e (Choice n c a b) v tbl =
     (case eval_condition c v of
        None \<Rightarrow> (Failed ValidationFailed n, v, tbl, [])
      | Some yes \<Rightarrow> (if yes then exec e a v tbl else exec e b v tbl))"
| "exec e (Parallel n bs) v tbl =
     joined v (run_all (map (\<lambda>b tbl'. exec e b v tbl') bs) tbl)"
| "exec e (MapState n k ps it) v tbl =
     (case Items v of
        None \<Rightarrow> (Failed ValidationFailed n, v, tbl, [])
      | Some xs \<Rightarrow>
          joined v (run_all (map (iteration n ps v (\<lambda>v' tbl'. exec e it v' tbl')) xs) tbl))"
| "exec e (Next a b) v tbl = and_then (exec e a v tbl) (\<lambda>v' tbl'. exec e b v' tbl')"
| "exec e (Catch a h) v tbl = or_catch v (exec e a v tbl) (\<lambda>v' tbl'. exec e h v' tbl')"

text \<open>An execution: a workflow run on a trigger's detail against a store.\<close>

definition start :: "item \<Rightarrow> vars" where
  "start d = \<lparr>detail = d, Items = None, Count = None, map_item = [], Item = None,
              MessageResult = None, caught = None\<rparr>"

definition run :: "env \<Rightarrow> step \<Rightarrow> item \<Rightarrow> store \<Rightarrow> outcome \<times> store \<times> effect list" where
  "run e w d tbl = (case exec e w (start d) tbl of (r, v, tbl', l) \<Rightarrow> (r, tbl', l))"

text \<open>The parts of what a run returns.\<close>

definition outcome_of :: "outcome \<times> store \<times> effect list \<Rightarrow> outcome" where
  "outcome_of r = fst r"

definition store_of :: "outcome \<times> store \<times> effect list \<Rightarrow> store" where
  "store_of r = fst (snd r)"

definition log_of :: "outcome \<times> store \<times> effect list \<Rightarrow> effect list" where
  "log_of r = snd (snd r)"

text \<open>The failure reports and the published notifications of a log, in order.\<close>

fun reports :: "effect list \<Rightarrow> report list" where
  "reports [] = []"
| "reports (Reported r # l) = r # reports l"
| "reports (x # l) = reports l"

fun published :: "effect list \<Rightarrow> (string \<times> (string \<times> string) list) list" where
  "published [] = []"
| "published (Published dt xs # l) = (dt, xs) # published l"
| "published (x # l) = published l"

definition workflows :: "step list" where
  "workflows = [createDelayWorkflow, createCancellationWorkflow, createGateChangeWorkflow]"

text \<open>The tasks of a workflow.\<close>

fun tasks :: "step \<Rightarrow> task list" where
  "tasks (Task n t) = [t]"
| "tasks (Pass n) = []"
| "tasks (Succeed n) = []"
| "tasks (Choice n c a b) = tasks a @ tasks b"
| "tasks (Parallel n bs) = concat (map tasks bs)"
| "tasks (MapState n k ps it) = tasks it"
| "tasks (Next a b) = tasks a @ tasks b"
| "tasks (Catch a h) = tasks a @ tasks h"

text \<open>
  Proof vocabulary: a result keeps \<open>J\<close>, \<open>I\<close> and \<open>E\<close> when its context satisfies \<open>J\<close>, its
  store satisfies \<open>I\<close> and every logged effect satisfies \<open>E\<close>.
\<close>

definition keeps :: "(vars \<Rightarrow> bool) \<Rightarrow> (store \<Rightarrow> bool) \<Rightarrow> (effect \<Rightarrow> bool) \<Rightarrow> result \<Rightarrow> bool" where
  "keeps J I E r = (case r of (r', v', tbl', l) \<Rightarrow> J v' \<and> I tbl' \<and> list_all E l)"

definition task_keeps :: "(vars \<Rightarrow> bool) \<Rightarrow> (store \<Rightarrow> bool) \<Rightarrow> (effect \<Rightarrow> bool) \<Rightarrow> task \<Rightarrow> bool" where
  "task_keeps J I E t = (\<forall>e n v tbl. J v \<longrightarrow> I tbl \<longrightarrow> keeps J I E (exec_task e n t v tbl))"

definition steady :: "(vars \<Rightarrow> bool) \<Rightarrow> bool" where
  "steady J = (\<forall>v. J v \<longrightarrow> (\<forall>x. J (v\<lparr>caught := x\<rparr>)) \<and> (\<forall>x. J (v\<lparr>map_item := x\<rparr>)))"

section \<open>The status fields and their index keys\<close>

text \<open>
  A Flight item (PK FLIGHT#..., SK METADATA) is in sync when its \<open>status\<close> and \<open>GSI1PK\<close>
  attributes are equal, a Booking item (PK BOOKING#..., SK METADATA) when its
  \<open>booking_status\<close> and \<open>GSI2PK\<close> are.
\<close>

definition entity_in_sync :: "key \<Rightarrow> item \<Rightarrow> bool" where
  "entity_in_sync k it =
     ((prefix ''FLIGHT#'' (fst k) \<and> snd k = ''METADATA'' \<longrightarrow> map_of it ''status'' = map_of it ''GSI1PK'') \<and>
      (prefix ''BOOKING#'' (fst k) \<and> snd k = ''METADATA'' \<longrightarrow>
         map_of it ''booking_status'' = map_of it ''GSI2PK''))"

definition store_in_sync :: "store \<Rightarrow> bool" where
  "store_in_sync tbl = list_all (\<lambda>(k, it). entity_in_sync k it) tbl"

fun written_together :: "effect \<Rightarrow> bool" where
  "written_together (Updated k vals snap) =
     (map_of vals ''status'' = map_of vals ''GSI1PK'' \<and>
      map_of vals ''booking_status'' = map_of vals ''GSI2PK'')"
| "written_together (Generated mt p snap) = True"
| "written_together (Published dt xs) = True"
| "written_together (Reported r) = True"

fun snapshot_in_sync :: "effect \<Rightarrow> bool" where
  "snapshot_in_sync (Updated k vals snap) = store_in_sync snap"
| "snapshot_in_sync (Generated mt p snap) = store_in_sync snap"
| "snapshot_in_sync (Published dt xs) = True"
| "snapshot_in_sync (Reported r) = True"

text \<open>
  An update expression assigns no attribute twice, and each status field and its index key
  from the same source.
\<close>

definition paired :: "(string \<times> value_source) list \<Rightarrow> bool" where
  "paired sets =
     (distinct (map fst sets) \<and>
      map_of sets ''status'' = map_of sets ''GSI1PK'' \<and>
      map_of sets ''booking_status'' = map_of sets ''GSI2PK'')"

fun assignments_paired :: "task \<Rightarrow> bool" where
  "assignments_paired (DynamoUpdateItem pre p sk sets) = paired sets"
| "assignments_paired t = True"

section \<open>Vocabulary of the workflow properties\<close>

text \<open>The tasks that write the store.\<close>

fun is_update :: "task \<Rightarrow> bool" where
  "is_update (DynamoUpdateItem pre p sk sets) = True"
| "is_update t = False"

text \<open>
  Gate change: the gate a store holds for a flight, and the effects allowed after the gate
  update: no further update, and a message generator that finds the new gate.
\<close>

definition flight_gate :: "store \<Rightarrow> string \<Rightarrow> string option" where
  "flight_gate tbl fid =
     (case get_item tbl (''FLIGHT#'' @ fid, ''METADATA'') of
        None \<Rightarrow> None | Some it \<Rightarrow> attr_S it ''gate'')"

fun sees_gate :: "string \<Rightarrow> string \<Rightarrow> effect \<Rightarrow> bool" where
  "sees_gate fid g (Updated k vals snap) = False"
| "sees_gate fid g (Generated mt p snap) = (flight_gate snap fid = Some g)"
| "sees_gate fid g (Published dt xs) = True"
| "sees_gate fid g (Reported r) = True"

text \<open>
  Cancellation: the bookings the trigger affects (the lookup records under the flight),
  and a store in which each of them is marked NEEDS_REBOOKING.
\<close>

definition booking_status_of :: "store \<Rightarrow> string \<Rightarrow> string option" where
  "booking_status_of tbl bid =
     (case get_item tbl (''BOOKING#'' @ bid, ''METADATA'') of
        None \<Rightarrow> None | Some it \<Rightarrow> attr_S it ''booking_status'')"

definition affected_bookings :: "item \<Rightarrow> store \<Rightarrow> item list" where
  "affected_bookings d tbl =
     (case attr_S d ''flight_id'' of
        None \<Rightarrow> [] | Some fid \<Rightarrow> query_prefix tbl (''FLIGHT#'' @ fid) ''BOOKING#'')"

definition all_need_rebooking :: "item list \<Rightarrow> store \<Rightarrow> bool" where
  "all_need_rebooking xs tbl =
     list_all (\<lambda>x. case attr_S x ''booking_id'' of
                      None \<Rightarrow> False
                    | Some bid \<Rightarrow> booking_status_of tbl bid = Some ''NEEDS_REBOOKING'') xs"

text \<open>The values the two cancellation updates assign.\<close>

definition rebooking_values :: item where
  "rebooking_values =
     [(''booking_status'', AttrS ''NEEDS_REBOOKING''), (''GSI2PK'', AttrS ''NEEDS_REBOOKING'')]"

definition cancelled_values :: item where
  "cancelled_values = [(''status'', AttrS ''CANCELLED''), (''GSI1PK'', AttrS ''CANCELLED'')]"

text \<open>
  The log of a sequential run: first the booking updates of step 2, then the notification
  effects of step 3, each generator call finding every affected booking marked, then the
  flight update of step 4.
\<close>

fun is_booking_update :: "effect \<Rightarrow> bool" where
  "is_booking_update (Updated k vals snap) =
     (prefix ''BOOKING#'' (fst k) \<and> snd k = ''METADATA'' \<and> vals = rebooking_values)"
| "is_booking_update x = False"

fun is_flight_update :: "effect \<Rightarrow> bool" where
  "is_flight_update (Updated k vals snap) =
     (prefix ''FLIGHT#'' (fst k) \<and> snd k = ''METADATA'' \<and> vals = cancelled_values)"
| "is_flight_update x = False"

fun notifies_after :: "item list \<Rightarrow> effect \<Rightarrow> bool" where
  "notifies_after xs (Generated mt p snap) =
     (mt = ''CANCELLATION_NOTIFICATION'' \<and> all_need_rebooking xs snap)"
| "notifies_after xs (Published dt fs) = True"
| "notifies_after xs x = False"

definition sequential_log :: "item list \<Rightarrow> effect list \<Rightarrow> bool" where
  "sequential_log xs l =
     (\<exists>us ns fs. l = us @ ns @ fs \<and> list_all is_booking_update us \<and>
        list_all (notifies_after xs) ns \<and> list_all is_flight_update fs)"

definition effects_of :: "result \<Rightarrow> effect list" where
  "effects_of r = snd (snd (snd r))"

text \<open>Delay: the values the UpdateFlightStatus step assigns for a trigger detail.\<close>

definition delayed_values :: "item \<Rightarrow> item option" where
  "delayed_values d =
     (case map_of d ''delay_minutes'' of
        Some (AttrN m) \<Rightarrow>
          (case attr_S d ''reason'' of
             Some r \<Rightarrow>
               Some [(''status'', AttrS ''DELAYED''), (''delay_minutes'', AttrN m),
                     (''delay_reason'', AttrS r), (''GSI1PK'', AttrS ''DELAYED'')]
           | None \<Rightarrow> None)
      | _ \<Rightarrow> None)"

text \<open>The store after the UpdateFlightStatus step of the Delay workflow has run on trigger detail d.\<close>

definition delay_update :: "item \<Rightarrow> store \<Rightarrow> store" where
  "delay_update d tbl =
     (case attr_S d ''flight_id'' of
        None \<Rightarrow> tbl
      | Some fid \<Rightarrow>
          (case delayed_values d of
             None \<Rightarrow> tbl
           | Some vals \<Rightarrow> update_item tbl (''FLIGHT#'' @ fid, ''METADATA'') vals))"

section \<open>The scheduling of Map items\<close>

text \<open>
  Modelled from the spec: how the engine schedules the items of a Map state (sections 4.1
  and 5). Items wait in a queue; one at a time, the first waiting item is started while
  fewer than the limit are in flight, and an item in flight finishes.
\<close>

record map_run =
  waiting :: "item list"
  in_flight :: "item list"
  finished :: "item list"

inductive map_step :: "nat \<Rightarrow> map_run \<Rightarrow> map_run \<Rightarrow> bool" for limit :: nat where
  start_item:
    "waiting s = x # rest \<Longrightarrow> length (in_flight s) < limit \<Longrightarrow>
     map_step limit s (s\<lparr>waiting := rest, in_flight := in_flight s @ [x]\<rparr>)"
| finish_item:
    "i < length (in_flight s) \<Longrightarrow>
     map_step limit s
       (s\<lparr>in_flight := take i (in_flight s) @ drop (Suc i) (in_flight s),
          finished := finished s @ [in_flight s ! i]\<rparr>)"

inductive map_reachable :: "nat \<Rightarrow> item list \<Rightarrow> map_run \<Rightarrow> bool"
  for limit :: nat and items :: "item list" where
  initial: "map_reachable limit items \<lparr>waiting = items, in_flight = [], finished = []\<rparr>"
| later: "map_reachable limit items s \<Longrightarrow> map_step limit s s' \<Longrightarrow> map_reachable limit items s'"

section \<open>Sample data\<close>

text \<open>
  Flight F1 with three bookings; the passenger of booking B2 has no record in
  \<open>sample_store\<close> and has one in \<open>full_store\<close>.
\<close>

definition lookup_record :: "string \<Rightarrow> string \<Rightarrow> string \<Rightarrow> key \<times> item" where
  "lookup_record f b p =
     ((''FLIGHT#'' @ f, ''BOOKING#'' @ b),
      [(''PK'', AttrS (''FLIGHT#'' @ f)), (''SK'', AttrS (''BOOKING#'' @ b)),
       (''booking_id'', AttrS b), (''passenger_id'', AttrS p)])"

definition flight_entry :: "string \<Rightarrow> string \<Rightarrow> key \<times> item" where
  "flight_entry f st =
     ((''FLIGHT#'' @ f, ''METADATA''),
      [(''PK'', AttrS (''FLIGHT#'' @ f)), (''SK'', AttrS ''METADATA''), (''flight_id'', AttrS f),
       (''status'', AttrS st), (''GSI1PK'', AttrS st), (''gate'', AttrS ''A1'')])"

definition booking_entry :: "string \<Rightarrow> string \<Rightarrow> key \<times> item" where
  "booking_entry b st =
     ((''BOOKING#'' @ b, ''METADATA''),
      [(''PK'', AttrS (''BOOKING#'' @ b)), (''SK'', AttrS ''METADATA''), (''booking_id'', AttrS b),
       (''booking_status'', AttrS st), (''GSI2PK'', AttrS st)])"

definition passenger_entry :: "string \<Rightarrow> bool \<Rightarrow> bool \<Rightarrow> key \<times> item" where
  "passenger_entry p wants_email wants_sms =
     ((''PASSENGER#'' @ p, ''METADATA''),
      passenger_item p (p @ ''@example.com'') ''+15550100'' wants_email wants_sms)"

definition sample_store :: store where
  "sample_store =
     [flight_entry ''F1'' ''SCHEDULED'',
      lookup_record ''F1'' ''B1'' ''P1'', lookup_record ''F1'' ''B2'' ''P2'',
      lookup_record ''F1'' ''B3'' ''P3'',
      booking_entry ''B1'' ''CONFIRMED'', booking_entry ''B2'' ''CONFIRMED'',
      booking_entry ''B3'' ''CHECKED_IN'',
      passenger_entry ''P1'' True False, passenger_entry ''P3'' False True]"

definition sample_generate :: "item \<Rightarrow> item \<Rightarrow> string \<Rightarrow> message" where
  "sample_generate p d mt = \<lparr>email_subject = mt, email_body = ''Dear passenger'', sms_body = mt\<rparr>"

definition no_faults :: env where
  "no_faults = \<lparr>faults = (\<lambda>n x. None), generate = sample_generate\<rparr>"

definition store_down_at :: "string \<Rightarrow> env" where
  "store_down_at n = \<lparr>faults = (\<lambda>m x. if m = n then Some StoreUnavailable else None), generate = sample_generate\<rparr>"

definition delay_detail :: item where
  "delay_detail = [(''flight_id'', AttrS ''F1''), (''delay_minutes'', AttrN 25), (''reason'', AttrS ''weather'')]"

definition cancel_detail :: item where
  "cancel_detail = [(''flight_id'', AttrS ''F1''), (''reason'', AttrS ''crew'')]"

definition gate_detail :: item where
  "gate_detail = [(''flight_id'', AttrS ''F1''), (''new_gate'', AttrS ''B7'')]"

definition full_store :: store where
  "full_store = passenger_entry ''P2'' True True # sample_store"

section \<open>Properties of the stream handler\<close>

lemma process_record_eq:
  "process_record bus now r = (if status_change r then Some (entry_of bus now r) else None)"
  by (auto simp: process_record_def status_change_def entry_of_def new_image_def
      old_booking_status_def truthy_def Let_def split: option.splits)

lemma handler_loop_sent:
  "sent (handler_loop send_ok bus clock i recs out) =
     sent out @ concat (map (\<lambda>(j, r). if status_change r then [entry_of bus (clock j) r] else [])
                        (enumerate i recs))"
  by (induction recs arbitrary: i out) (simp_all add: process_record_eq)

lemma handler_loop_delivered:
  "delivered (handler_loop send_ok bus clock i recs out) =
     delivered out @ filter send_ok
        (concat (map (\<lambda>(j, r). if status_change r then [entry_of bus (clock j) r] else [])
                        (enumerate i recs)))"
  by (induction recs arbitrary: i out) (simp_all add: process_record_eq)

lemma entry_of_type: "DetailType (entry_of bus now r) = ''booking.status_changed''"
  by (simp add: entry_of_def status_changed_entry_def split: option.splits)

text \<open>
  Claim C10, as the code has it. For every batch and every behaviour of the bus, the
  entries the handler sends are, record by record and in order, one
  booking.status_changed entry for each record that is an INSERT or MODIFY of an item
  whose PK begins with BOOKING# and whose SK is METADATA and whose new booking_status is a
  non-empty string different from the old image's, and nothing for any other record. A
  send that fails for one record changes nothing for the records after it: the sent
  entries do not depend on \<open>send_ok\<close>, and the delivered ones are those the bus accepted.
\<close>

theorem stream_handler_publishes:
  "sent (stream_handler send_ok bus clock recs) =
     concat (map (\<lambda>(i, r). if status_change r then [entry_of bus (clock i) r] else [])
               (enumerate 0 recs)) \<and>
   delivered (stream_handler send_ok bus clock recs) =
     filter send_ok (sent (stream_handler send_ok bus clock recs)) \<and>
   (\<forall>e \<in> set (sent (stream_handler send_ok bus clock recs)).
      DetailType e = ''booking.status_changed'')"
  by (auto simp: stream_handler_def handler_loop_sent handler_loop_delivered entry_of_type
      split: if_splits)

text \<open>
  A batch of three records on a bus that rejects every entry: the first and the third
  change the status and are both sent, although the send of the first one failed.
\<close>

theorem stream_handler_publishes_witness:
  "map (\<lambda>e. booking_id (Detail e))
     (sent (stream_handler (\<lambda>e. False) ''bus'' (\<lambda>i. ''t'')
        [modify_record ''B1'' ''CONFIRMED'' ''NEEDS_REBOOKING'',
         modify_record ''B2'' ''CONFIRMED'' ''CONFIRMED'',
         modify_record ''B3'' ''CONFIRMED'' ''CANCELLED''])) = [''B1'', ''B3''] \<and>
   delivered (stream_handler (\<lambda>e. False) ''bus'' (\<lambda>i. ''t'')
        [modify_record ''B1'' ''CONFIRMED'' ''NEEDS_REBOOKING'',
         modify_record ''B2'' ''CONFIRMED'' ''CONFIRMED'',
         modify_record ''B3'' ''CONFIRMED'' ''CANCELLED'']) = []"
  using stream_handler_publishes [of "\<lambda>e. False" "''bus''" "\<lambda>i. ''t''"
      "[modify_record ''B1'' ''CONFIRMED'' ''NEEDS_REBOOKING'',
        modify_record ''B2'' ''CONFIRMED'' ''CONFIRMED'',
        modify_record ''B3'' ''CONFIRMED'' ''CANCELLED'']"]
  by (simp add: status_change_def entry_of_def status_changed_entry_def modify_record_def
      booking_image_def new_image_def old_booking_status_def attr_S_def or_empty_def)

text \<open>
  The claim as worded fails where the new booking_status is present but empty: the
  worded condition holds of the record, and the handler sends nothing for it.
\<close>

theorem stream_handler_empty_status_counterexample:
  "status_change_claimed (modify_record ''B1'' ''CONFIRMED'' []) \<and>
   sent (stream_handler (\<lambda>e. True) ''bus'' (\<lambda>i. ''t'')
           [modify_record ''B1'' ''CONFIRMED'' []]) = []"
  by (simp add: status_change_claimed_def stream_handler_def process_record_def
      modify_record_def booking_image_def new_image_def old_booking_status_def attr_S_def
      or_empty_def truthy_def)

section \<open>Properties of the event routing\<close>

lemma selected_workflows_cases:
  "selected_workflows ev =
     (if event_source ev = ''flightpulse.kafka-consumer'' then
        (if event_detail_type ev = ''flight.delay.minor'' then [DelayNotificationWorkflow]
         else if event_detail_type ev = ''flight.delay.major'' then [DelayNotificationWorkflow]
         else if event_detail_type ev = ''flight.delay.severe'' then [DelayNotificationWorkflow]
         else if event_detail_type ev = ''flight.cancelled'' then [CancellationWorkflow]
         else if event_detail_type ev = ''flight.gate_change'' then [GateChangeWorkflow]
         else [])
      else [])"
  by (simp add: selected_workflows_def rules_def workflow_rule_def notification_rule_def
      matches_def allows_def)

text \<open>
  Claim C5. Each of the five trigger detail-types selects exactly one workflow, the one
  the claim names: the three delay classes the Delay workflow, flight.cancelled the
  Cancellation workflow, flight.gate_change the Gate-Change workflow. No event at all,
  whatever its source and detail-type, selects two workflows.
\<close>

theorem exactly_one_workflow:
  "(\<forall>(dt, w) \<in> set claimed_routes. selected_workflows (trigger dt) = [w]) \<and>
   (\<forall>ev. length (selected_workflows ev) \<le> 1)"
  by (simp add: selected_workflows_cases claimed_routes_def trigger_def)

theorem exactly_one_workflow_witness:
  "(''flight.cancelled'', CancellationWorkflow) \<in> set claimed_routes \<and>
   selected_workflows (trigger ''flight.cancelled'') = [CancellationWorkflow]"
proof -
  have m: "(''flight.cancelled'', CancellationWorkflow) \<in> set claimed_routes"
    by (simp add: claimed_routes_def)
  from exactly_one_workflow m
  have "selected_workflows (trigger ''flight.cancelled'') = [CancellationWorkflow]"
    by blast
  with m show ?thesis by simp
qed

section \<open>Properties of the read API\<close>


lemma passenger_route:
  assumes "match_segment ''/passengers/'' (path ev)" "httpMethod ev = ''GET''"
  shows "api_handler db_error now tbl ev =
     (case db_error of Some msg \<Rightarrow> json_response 500 (obj [(''error'', Some (JStr msg))])
      | None \<Rightarrow>
         (case get_item tbl (''PASSENGER#'' @ path_param ev ''passengerId'', ''METADATA'') of
            None \<Rightarrow> json_response 404 (obj [(''error'', Some (JStr ''Passenger not found''))])
          | Some it \<Rightarrow> json_response 200 (JObj (safeData (unmarshal_item it)))))"
proof -
  from assms(1) obtain rest where p: "path ev = ''/passengers/'' @ rest"
    by (auto simp: match_segment_def prefix_def)
  have "path ev \<noteq> ''/health''" "path ev \<noteq> ''/flights''"
    "\<not> match_segment ''/flights/'' (path ev)"
    "\<not> match_segment_then ''/flights/'' ''/bookings'' (path ev)"
    by (simp_all add: p match_segment_def match_segment_then_def)
  with assms show ?thesis
    by (simp add: api_handler_def)
qed

lemma safeData_fields:
  "''email'' \<notin> set (map fst (safeData xs)) \<and> ''phone'' \<notin> set (map fst (safeData xs))"
  by (auto simp: safeData_def)

lemma safeData_unmarshal:
  "safeData (unmarshal_item it) =
     unmarshal_item (filter (\<lambda>(k, v). k \<noteq> ''email'' \<and> k \<noteq> ''phone'') it)"
  by (induction it) (auto simp: safeData_def unmarshal_item_def)

text \<open>
  Claim C9. For a request that the handler routes to the passenger read, whatever the
  table holds and whether or not the table client fails, the response body has no
  top-level field named email and none named phone; and two tables whose passenger
  records differ at most in email and phone give the same response. (The nested
  notification preference flags are not contact fields and stay in the body.)
\<close>

theorem passenger_read_hides_contact:
  assumes "match_segment ''/passengers/'' (path ev)" and "httpMethod ev = ''GET''"
  shows "''email'' \<notin> set (body_fields (body (api_handler db_error now tbl ev))) \<and>
         ''phone'' \<notin> set (body_fields (body (api_handler db_error now tbl ev))) \<and>
         (\<forall>tbl' a b.
            get_item tbl (''PASSENGER#'' @ path_param ev ''passengerId'', ''METADATA'') = Some a \<and>
            get_item tbl' (''PASSENGER#'' @ path_param ev ''passengerId'', ''METADATA'') = Some b \<and>
            same_but_contact a b \<longrightarrow>
            api_handler db_error now tbl' ev = api_handler db_error now tbl ev)"
proof -
  have "''email'' \<notin> set (body_fields (body (api_handler db_error now tbl ev)))"
    using safeData_fields
    by (simp add: passenger_route [OF assms] json_response_def obj_def body_fields_def
        split: option.splits)
  moreover have "''phone'' \<notin> set (body_fields (body (api_handler db_error now tbl ev)))"
    using safeData_fields
    by (simp add: passenger_route [OF assms] json_response_def obj_def body_fields_def
        split: option.splits)
  moreover have "api_handler db_error now tbl' ev = api_handler db_error now tbl ev"
    if "get_item tbl (''PASSENGER#'' @ path_param ev ''passengerId'', ''METADATA'') = Some a"
      "get_item tbl' (''PASSENGER#'' @ path_param ev ''passengerId'', ''METADATA'') = Some b"
      "same_but_contact a b" for tbl' a b
    using that
    by (simp add: passenger_route [OF assms] safeData_unmarshal same_but_contact_def
        split: option.splits)
  ultimately show ?thesis by blast
qed


text \<open>
  The request for passenger P1 against a table holding that passenger: the route matches,
  the body lists every field but the two contact fields, and a record with another email
  and phone gives the same response.
\<close>

theorem passenger_read_hides_contact_witness:
  "match_segment ''/passengers/'' (path (get_passenger_request ''P1'')) \<and>
   httpMethod (get_passenger_request ''P1'') = ''GET'' \<and>
   get_item [((''PASSENGER#P1'', ''METADATA''),
              passenger_item ''P1'' ''ada@example.com'' ''+15550100'' True False)]
     (''PASSENGER#'' @ path_param (get_passenger_request ''P1'') ''passengerId'', ''METADATA'')
     = Some (passenger_item ''P1'' ''ada@example.com'' ''+15550100'' True False) \<and>
   same_but_contact (passenger_item ''P1'' ''ada@example.com'' ''+15550100'' True False)
     (passenger_item ''P1'' ''eve@example.org'' ''+15550199'' True False) \<and>
   body_fields (body (api_handler None ''t''
      [((''PASSENGER#P1'', ''METADATA''),
        passenger_item ''P1'' ''ada@example.com'' ''+15550100'' True False)]
      (get_passenger_request ''P1''))) =
     [''PK'', ''SK'', ''passenger_id'', ''first_name'', ''notification_preferences''] \<and>
   api_handler None ''t''
      [((''PASSENGER#P1'', ''METADATA''),
        passenger_item ''P1'' ''eve@example.org'' ''+15550199'' True False)]
      (get_passenger_request ''P1'') =
   api_handler None ''t''
      [((''PASSENGER#P1'', ''METADATA''),
        passenger_item ''P1'' ''ada@example.com'' ''+15550100'' True False)]
      (get_passenger_request ''P1'')"
proof -
  have m: "match_segment ''/passengers/'' (path (get_passenger_request ''P1''))"
    by (simp add: match_segment_def get_passenger_request_def)
  have g: "httpMethod (get_passenger_request ''P1'') = ''GET''"
    by (simp add: get_passenger_request_def)
  have k: "path_param (get_passenger_request ''P1'') ''passengerId'' = ''P1''"
    by (simp add: path_param_def get_passenger_request_def)
  have a: "get_item [((''PASSENGER#P1'', ''METADATA''),
              passenger_item ''P1'' ''ada@example.com'' ''+15550100'' True False)]
     (''PASSENGER#'' @ path_param (get_passenger_request ''P1'') ''passengerId'', ''METADATA'')
     = Some (passenger_item ''P1'' ''ada@example.com'' ''+15550100'' True False)"
    by (simp add: k get_item_def)
  have b: "get_item [((''PASSENGER#P1'', ''METADATA''),
              passenger_item ''P1'' ''eve@example.org'' ''+15550199'' True False)]
     (''PASSENGER#'' @ path_param (get_passenger_request ''P1'') ''passengerId'', ''METADATA'')
     = Some (passenger_item ''P1'' ''eve@example.org'' ''+15550199'' True False)"
    by (simp add: k get_item_def)
  have s: "same_but_contact (passenger_item ''P1'' ''ada@example.com'' ''+15550100'' True False)
     (passenger_item ''P1'' ''eve@example.org'' ''+15550199'' True False)"
    by (simp add: same_but_contact_def passenger_item_def)
  have f: "body_fields (body (api_handler None ''t''
      [((''PASSENGER#P1'', ''METADATA''),
        passenger_item ''P1'' ''ada@example.com'' ''+15550100'' True False)]
      (get_passenger_request ''P1''))) =
     [''PK'', ''SK'', ''passenger_id'', ''first_name'', ''notification_preferences'']"
    by (simp add: api_handler_def get_passenger_request_def match_segment_def
        match_segment_then_def path_param_def get_item_def passenger_item_def json_response_def
        safeData_def unmarshal_item_def body_fields_def)
  from passenger_read_hides_contact [OF m g, of None "''t''"
      "[((''PASSENGER#P1'', ''METADATA''),
        passenger_item ''P1'' ''ada@example.com'' ''+15550100'' True False)]"] a b s
  have "api_handler None ''t''
      [((''PASSENGER#P1'', ''METADATA''),
        passenger_item ''P1'' ''eve@example.org'' ''+15550199'' True False)]
      (get_passenger_request ''P1'') =
   api_handler None ''t''
      [((''PASSENGER#P1'', ''METADATA''),
        passenger_item ''P1'' ''ada@example.com'' ''+15550100'' True False)]
      (get_passenger_request ''P1'')"
    by blast
  with m g a s f show ?thesis by blast
qed

section \<open>Properties of the workflow engine\<close>

lemmas workflow_defs =
  createDelayWorkflow_def createCancellationWorkflow_def createGateChangeWorkflow_def
  getBookings_def notifyFailure_def parallelExecution_def checkBookings_def
  createProcessBookingsMap_def processBooking_def getPassenger_def generateMessage_def
  sendNotifications_def sendEmail_def sendSms_def updateFlightDelayed_def markForRebooking_def
  updateBookingStatus_def updateFlightCancelled_def updateGate_def

lemmas sample_defs = sample_store_def full_store_def lookup_record_def flight_entry_def booking_entry_def
  passenger_entry_def passenger_item_def no_faults_def store_down_at_def delay_detail_def
  cancel_detail_def gate_detail_def sample_generate_def

lemmas engine_defs = run_def start_def exec_task_def and_then_def or_catch_def joined_def
  iteration_def iteration_input_def string_at_def read_path_def read_value_def read_field_def
  eval_condition_def get_item_def query_prefix_def update_item_def attr_S_def

lemma keepsI: "J v \<Longrightarrow> I tbl \<Longrightarrow> list_all E l \<Longrightarrow> keeps J I E (r, v, tbl, l)"
  by (simp add: keeps_def)

lemma run_all_keeps:
  assumes "\<And>f tbl. f \<in> set fs \<Longrightarrow> I tbl \<Longrightarrow> keeps J I E (f tbl)" and "I tbl" and "J v"
  shows "keeps J I E (joined v (run_all fs tbl))"
  using assms
proof (induction fs arbitrary: tbl)
  case Nil
  then show ?case by (simp add: keeps_def joined_def)
next
  case (Cons f fs)
  have f: "keeps J I E (f tbl)" using Cons.prems by simp
  obtain r v' tbl' l where ft: "f tbl = (r, v', tbl', l)" by (cases "f tbl") auto
  with f have I': "I tbl'" and El: "list_all E l" by (simp_all add: keeps_def)
  have rest: "keeps J I E (joined v (run_all fs tbl'))"
    using Cons.IH [of tbl'] Cons.prems I' by simp
  obtain r2 tbl2 l2 where rt: "run_all fs tbl' = (r2, tbl2, l2)" by (cases "run_all fs tbl'") auto
  show ?case
    using ft rt rest I' El Cons.prems(3)
    by (cases r) (simp_all add: keeps_def joined_def)
qed

lemma and_then_keeps:
  assumes "keeps J I E r" and "\<And>v tbl. J v \<Longrightarrow> I tbl \<Longrightarrow> keeps J I E (f v tbl)"
  shows "keeps J I E (and_then r f)"
proof -
  obtain r' v' tbl' l where r: "r = (r', v', tbl', l)" by (cases r) auto
  with assms(1) have a: "J v'" "I tbl'" "list_all E l" by (simp_all add: keeps_def)
  obtain r2 v2 tbl2 l2 where f: "f v' tbl' = (r2, v2, tbl2, l2)" by (cases "f v' tbl'") auto
  from assms(2) [OF a(1) a(2)] f have "J v2" "I tbl2" "list_all E l2" by (simp_all add: keeps_def)
  with a r f show ?thesis by (cases r') (simp_all add: and_then_def keeps_def)
qed

lemma or_catch_keeps:
  assumes "keeps J I E r" and "\<And>v tbl. J v \<Longrightarrow> I tbl \<Longrightarrow> keeps J I E (h v tbl)"
    and "J v" and "\<And>x. J (v\<lparr>caught := x\<rparr>)"
  shows "keeps J I E (or_catch v r h)"
proof -
  obtain r' v' tbl' l where r: "r = (r', v', tbl', l)" by (cases r) auto
  with assms(1) have a: "J v'" "I tbl'" "list_all E l" by (simp_all add: keeps_def)
  show ?thesis
  proof (cases r')
    case (Failed k c)
    obtain r2 v2 tbl2 l2 where h: "h (v\<lparr>caught := Some (k, c)\<rparr>) tbl' = (r2, v2, tbl2, l2)"
      by (cases "h (v\<lparr>caught := Some (k, c)\<rparr>) tbl'") auto
    from assms(2) [OF assms(4) a(2), of "Some (k, c)"] h
    have "J v2" "I tbl2" "list_all E l2" by (simp_all add: keeps_def)
    with a r h Failed show ?thesis by (cases r2) (simp_all add: or_catch_def keeps_def)
  qed (use a r in \<open>simp_all add: or_catch_def keeps_def\<close>)
qed

lemma exec_keeps:
  assumes "\<forall>t \<in> set (tasks s). task_keeps J I E t" and "steady J" and "J v" and "I tbl"
  shows "keeps J I E (exec e s v tbl)"
  using assms
proof (induction e s v tbl rule: exec.induct)
  case (1 e n t v tbl)
  then show ?case
    by (auto simp: task_keeps_def keeps_def split: option.splits)
next
  case (2 e n v tbl)
  then show ?case by (simp add: keeps_def)
next
  case (3 e n v tbl)
  then show ?case by (simp add: keeps_def)
next
  case (4 e n c a b v tbl)
  then show ?case by (auto simp: keeps_def split: option.splits)
next
  case (5 e n bs v tbl)
  have "keeps J I E (joined v (run_all (map (\<lambda>b tbl'. exec e b v tbl') bs) tbl))"
  proof (rule run_all_keeps)
    fix f tbl' assume "f \<in> set (map (\<lambda>b tbl'. exec e b v tbl') bs)" and I: "I tbl'"
    then obtain b where b: "b \<in> set bs" and f: "f = (\<lambda>tbl'. exec e b v tbl')" by auto
    from 5 b I show "keeps J I E (f tbl')" unfolding f by auto
  qed (use 5 in auto)
  then show ?case by simp
next
  case (6 e n k ps it v tbl)
  show ?case
  proof (cases "Items v")
    case None
    with 6 show ?thesis by (simp add: keeps_def)
  next
    case (Some xs)
    have "keeps J I E
       (joined v (run_all (map (iteration n ps v (\<lambda>v' tbl'. exec e it v' tbl')) xs) tbl))"
    proof (rule run_all_keeps)
      fix f tbl' assume "f \<in> set (map (iteration n ps v (\<lambda>v' tbl'. exec e it v' tbl')) xs)"
        and I: "I tbl'"
      then obtain x where x: "x \<in> set xs"
        and f: "f = iteration n ps v (\<lambda>v' tbl'. exec e it v' tbl') x" by auto
      show "keeps J I E (f tbl')"
      proof (cases "iteration_input ps x")
        case None
        with 6 I show ?thesis by (simp add: f iteration_def keeps_def)
      next
        case (Some y)
        from 6 have "J (v\<lparr>map_item := y\<rparr>)" by (simp add: steady_def)
        with 6 I Some x \<open>Items v = Some xs\<close> show ?thesis by (simp add: f iteration_def)
      qed
    qed (use 6 in auto)
    with Some show ?thesis by simp
  qed
next
  case (7 e a b v tbl)
  have "keeps J I E (and_then (exec e a v tbl) (\<lambda>v' tbl'. exec e b v' tbl'))"
    by (rule and_then_keeps) (use 7 in auto)
  then show ?case by simp
next
  case (8 e a h v tbl)
  have "keeps J I E (or_catch v (exec e a v tbl) (\<lambda>v' tbl'. exec e h v' tbl'))"
    by (rule or_catch_keeps) (use 8 in \<open>auto simp: steady_def\<close>)
  then show ?case by simp
qed

section \<open>Status fields and index keys stay in sync\<close>

lemma list_all_update:
  "list_all P al \<Longrightarrow> P (k, v) \<Longrightarrow> list_all P (AList.update k v al)"
  by (induction al) auto

lemma map_of_fold_update:
  "map_of (fold (\<lambda>(a, x). AList.update a x) vals it) = map_of it ++ map_of (rev vals)"
proof (induction vals arbitrary: it)
  case Nil
  then show ?case by simp
next
  case (Cons p vals)
  obtain a x where p: "p = (a, x)" by (cases p)
  show ?case
    by (simp add: p Cons.IH update_conv' map_add_upd_left fun_eq_iff map_add_def split: option.splits)
qed

lemma store_in_sync_lookup:
  "store_in_sync tbl \<Longrightarrow> map_of tbl k = Some it \<Longrightarrow> entity_in_sync k it"
  by (auto simp: store_in_sync_def list_all_iff dest: map_of_SomeD)

lemma store_in_sync_update_item:
  assumes "store_in_sync tbl"
    and "map_of (rev vals) ''status'' = map_of (rev vals) ''GSI1PK''"
    and "map_of (rev vals) ''booking_status'' = map_of (rev vals) ''GSI2PK''"
  shows "store_in_sync (update_item tbl k vals)"
proof -
  define base where "base = (case map_of tbl k of
             None \<Rightarrow> [(''PK'', AttrS (fst k)), (''SK'', AttrS (snd k))] | Some it \<Rightarrow> it)"
  have b: "entity_in_sync k base"
    using assms(1) by (auto simp: base_def entity_in_sync_def split: option.splits
        dest: store_in_sync_lookup)
  have "entity_in_sync k (fold (\<lambda>(a, x). AList.update a x) vals base)"
    using b assms(2,3)
    by (auto simp: entity_in_sync_def map_of_fold_update map_add_def split: option.splits)
  then show ?thesis
    using assms(1) unfolding update_item_def store_in_sync_def base_def [symmetric]
    by (intro list_all_update) simp_all
qed

lemma read_values_names:
  "read_values sets v = Some vals \<Longrightarrow> map fst vals = map fst sets"
  by (induction sets arbitrary: vals) (auto split: option.splits)

lemma read_values_rev:
  "read_values sets v = Some vals \<Longrightarrow>
   map_of (rev vals) a = (case map_of (rev sets) a of None \<Rightarrow> None | Some src \<Rightarrow> read_value src v)"
proof (induction sets arbitrary: vals)
  case Nil
  then show ?case by simp
next
  case (Cons p sets)
  obtain b src where p: "p = (b, src)" by (cases p)
  from Cons.prems obtain x xs where x: "read_value src v = Some x"
    and xs: "read_values sets v = Some xs" and vals: "vals = (b, x) # xs"
    by (auto simp: p split: option.splits)
  have names: "map fst xs = map fst sets" by (rule read_values_names [OF xs])
  have none: "(map_of (rev xs) a = None) = (map_of (rev sets) a = None)"
    by (simp add: map_of_eq_None_iff names [symmetric] set_map [symmetric] del: set_map)
  show ?case
  proof (cases "map_of (rev sets) a")
    case None
    with none have "map_of (rev xs) a = None" by simp
    with None x show ?thesis by (simp add: vals p map_add_def)
  next
    case (Some src')
    with none obtain y where y: "map_of (rev xs) a = Some y" by auto
    from Cons.IH [OF xs] Some y have "read_value src' v = Some y" by simp
    with y Some show ?thesis by (simp add: vals p map_add_def)
  qed
qed

lemma map_of_rev_distinct:
  assumes "distinct (map fst xs)"
  shows "map_of (rev xs) = map_of xs"
proof -
  have "distinct (map fst (rev xs))" using assms by (simp add: rev_map [symmetric])
  then show ?thesis using assms by (simp add: map_of_inject_set)
qed

lemma paired_values:
  assumes "paired sets" and "read_values sets v = Some vals"
  shows "map_of (rev vals) = map_of vals"
    and "map_of vals ''status'' = map_of vals ''GSI1PK''"
    and "map_of vals ''booking_status'' = map_of vals ''GSI2PK''"
proof -
  have d: "distinct (map fst sets)" using assms(1) by (simp add: paired_def)
  have r: "map_of (rev sets) = map_of sets" by (rule map_of_rev_distinct [OF d])
  show v: "map_of (rev vals) = map_of vals"
    using d read_values_names [OF assms(2)] by (intro map_of_rev_distinct) simp
  have "map_of (rev vals) ''status'' = map_of (rev vals) ''GSI1PK''"
    using assms(1) by (simp add: read_values_rev [OF assms(2)] r paired_def)
  then show "map_of vals ''status'' = map_of vals ''GSI1PK''" by (simp add: v)
  have "map_of (rev vals) ''booking_status'' = map_of (rev vals) ''GSI2PK''"
    using assms(1) by (simp add: read_values_rev [OF assms(2)] r paired_def)
  then show "map_of vals ''booking_status'' = map_of vals ''GSI2PK''" by (simp add: v)
qed

lemma task_keeps_sync:
  "assignments_paired t \<Longrightarrow> task_keeps (\<lambda>v. True) store_in_sync snapshot_in_sync t"
  by (cases t)
    (auto simp: task_keeps_def keeps_def exec_task_def paired_values
      intro!: store_in_sync_update_item split: option.splits)

lemma task_keeps_written:
  "assignments_paired t \<Longrightarrow> task_keeps (\<lambda>v. True) (\<lambda>tbl. True) written_together t"
  by (cases t)
    (auto simp: task_keeps_def keeps_def exec_task_def paired_values split: option.splits)

lemma workflows_paired:
  "w \<in> set workflows \<Longrightarrow> t \<in> set (tasks w) \<Longrightarrow> assignments_paired t"
  unfolding workflows_def workflow_defs by (auto simp: paired_def)

lemma run_keeps:
  assumes "\<forall>t \<in> set (tasks w). task_keeps J I E t" and "steady J" and "J (start d)" and "I tbl"
  shows "I (store_of (run e w d tbl)) \<and> list_all E (log_of (run e w d tbl))"
  using exec_keeps [OF assms, of e]
  by (simp add: run_def keeps_def store_of_def log_of_def split: prod.splits)

text \<open>
  Claim C3. In every execution of any of the three workflows, whatever fails and whatever
  the trigger carries, each update that is performed writes the status field and its index
  key together and with the same value (\<open>status\<close> with \<open>GSI1PK\<close>, \<open>booking_status\<close> with
  \<open>GSI2PK\<close>); and from a store in which every Flight and Booking item is in sync, the store
  left by each update, the store seen by each call of the message generator and the final
  store are in sync.
\<close>

theorem status_and_index_in_sync:
  assumes "w \<in> set workflows"
  shows "list_all written_together (log_of (run e w d tbl)) \<and>
         (store_in_sync tbl \<longrightarrow>
            store_in_sync (store_of (run e w d tbl)) \<and>
            list_all snapshot_in_sync (log_of (run e w d tbl)))"
proof -
  have p: "\<forall>t \<in> set (tasks w). assignments_paired t"
    using assms workflows_paired by blast
  have st: "steady (\<lambda>v. True)" by (simp add: steady_def)
  have "list_all written_together (log_of (run e w d tbl))"
    using run_keeps [of w "\<lambda>v. True" "\<lambda>tbl. True" written_together d tbl e] p st
    by (simp add: task_keeps_written)
  moreover have "store_in_sync (store_of (run e w d tbl)) \<and>
      list_all snapshot_in_sync (log_of (run e w d tbl))" if "store_in_sync tbl"
    using run_keeps [of w "\<lambda>v. True" store_in_sync snapshot_in_sync d tbl e] p st that
    by (simp add: task_keeps_sync)
  ultimately show ?thesis by blast
qed

lemma cancellation_sample_length:
  "length (log_of (run no_faults createCancellationWorkflow cancel_detail full_store)) = 11"
  by (simp add: log_of_def workflow_defs sample_defs engine_defs)

text \<open>
  The Cancellation workflow on the full sample store, which is in sync: the run logs
  eleven effects, four of them updates.
\<close>

theorem status_and_index_in_sync_witness:
  "createCancellationWorkflow \<in> set workflows \<and> store_in_sync full_store \<and>
   length (log_of (run no_faults createCancellationWorkflow cancel_detail full_store)) = 11 \<and>
   list_all written_together
     (log_of (run no_faults createCancellationWorkflow cancel_detail full_store)) \<and>
   store_in_sync (store_of (run no_faults createCancellationWorkflow cancel_detail full_store)) \<and>
   list_all snapshot_in_sync
     (log_of (run no_faults createCancellationWorkflow cancel_detail full_store))"
proof -
  have w: "createCancellationWorkflow \<in> set workflows" by (simp add: workflows_def)
  have s: "store_in_sync full_store"
    by (simp add: store_in_sync_def entity_in_sync_def sample_defs)
  from status_and_index_in_sync [OF w, of no_faults cancel_detail full_store] s w
    cancellation_sample_length
  show ?thesis by blast
qed

section \<open>Failures and their reports\<close>

text \<open>
  Claim C1, at a failing input. The store is unavailable at the first step. The
  Cancellation and the Gate-Change workflow attach no catch handler to any state: the
  execution fails and the log holds no Failure Report. The Delay workflow, which attaches
  \<open>notifyFailure\<close> to the same step, reports the same failure once.
\<close>

theorem failure_without_report:
  "run (store_down_at ''GetAffectedBookings'') createCancellationWorkflow cancel_detail sample_store
     = (Failed StoreUnavailable ''GetAffectedBookings'', sample_store, []) \<and>
   run (store_down_at ''UpdateFlightGate'') createGateChangeWorkflow gate_detail sample_store
     = (Failed StoreUnavailable ''UpdateFlightGate'', sample_store, []) \<and>
   run (store_down_at ''GetAffectedBookings'') createDelayWorkflow delay_detail sample_store
     = (Ended, sample_store,
        [Reported \<lparr>report_workflow = ''DelayNotification'', report_error = StoreUnavailable,
                   report_cause = ''GetAffectedBookings'', report_input = delay_detail\<rparr>])"
  by (simp add: workflow_defs store_down_at_def run_def start_def and_then_def or_catch_def
      exec_task_def)

text \<open>
  Claim C2, at a failing input. Flight F1 has three bookings and the passenger of the second
  has no record. No state of the per-booking sub-workflow and no ProcessBookings Map has a
  catch handler, so the failed lookup fails the Map. In the Delay workflow the enclosing
  Parallel state catches it: one report, but the third booking (whose passenger asked for
  SMS) is never processed and only the first passenger's e-mail is published. In the
  Gate-Change workflow nothing catches it: the execution fails without a report.
\<close>

theorem missing_passenger_fails_map:
  "(case run no_faults createDelayWorkflow delay_detail sample_store of
      (r, tbl, l) \<Rightarrow>
        r = Ended \<and>
        reports l =
          [\<lparr>report_workflow = ''DelayNotification'', report_error = RecordNotFound,
            report_cause = ''GetPassengerDetails'', report_input = delay_detail\<rparr>] \<and>
        published l =
          [(''notification.email'',
            [(''to'', ''P1@example.com''), (''subject'', ''DELAY_NOTIFICATION''),
             (''body'', ''Dear passenger'')])]) \<and>
   (case run no_faults createGateChangeWorkflow gate_detail sample_store of
      (r, tbl, l) \<Rightarrow>
        r = Failed RecordNotFound ''GetPassengerDetails'' \<and>
        reports l = [] \<and>
        published l =
          [(''notification.email'',
            [(''to'', ''P1@example.com''), (''subject'', ''GATE_CHANGE_NOTIFICATION''),
             (''body'', ''Dear passenger'')])])"
  by (simp add: workflow_defs sample_defs engine_defs)

section \<open>Sequencing of the workflow steps\<close>

lemma and_then_assoc:
  "and_then (and_then r f) g = and_then r (\<lambda>v tbl. and_then (f v tbl) g)"
  by (cases r rule: prod_cases4) 
     (auto simp: and_then_def split: prod.splits outcome.splits)

lemma exec_Next: "exec e (Next a b) = (\<lambda>v tbl. and_then (exec e a v tbl) (exec e b))"
  by (intro ext) simp

lemma exec_Next_assoc: "exec e (Next (Next a b) c) = exec e (Next a (Next b c))"
  by (simp add: exec_Next and_then_assoc)

lemma string_at_detail: "string_at (DetailField f) v = attr_S (detail v) f"
  by (simp add: string_at_def read_path_def attr_S_def)

lemma string_at_item: "string_at (ItemField f) v = attr_S (map_item v) f"
  by (simp add: string_at_def read_path_def attr_S_def)

lemma get_item_update_item:
  "get_item (update_item tbl k vals) k' =
     (if k' = k then Some (fold (\<lambda>(a, x). AList.update a x) vals
          (case map_of tbl k of
             None \<Rightarrow> [(''PK'', AttrS (fst k)), (''SK'', AttrS (snd k))] | Some it \<Rightarrow> it))
      else get_item tbl k')"
  by (simp add: get_item_def update_item_def update_conv')

lemma task_keeps_read_only:
  assumes "\<not> is_update t"
    and "\<And>mt p. t = LambdaInvoke mt \<Longrightarrow> E (Generated mt p s)"
    and "\<And>dt fs xs. t = EventBridgePutEvents dt fs \<Longrightarrow> E (Published dt xs)"
    and "\<And>w r. t = SnsPublish w \<Longrightarrow> E (Reported r)"
  shows "task_keeps (\<lambda>v. True) (\<lambda>tbl. tbl = s) E t"
  using assms
  by (cases t) (auto simp: task_keeps_def keeps_def exec_task_def split: option.splits)

lemma exec_updateGate:
  "exec e updateGate v tbl =
     (case faults e ''UpdateFlightGate'' (map_item v) of
        Some k \<Rightarrow> (Failed k ''UpdateFlightGate'', v, tbl, [])
      | None \<Rightarrow>
         (case attr_S (detail v) ''flight_id'' of
            None \<Rightarrow> (Failed ValidationFailed ''UpdateFlightGate'', v, tbl, [])
          | Some fid \<Rightarrow>
             (case attr_S (detail v) ''new_gate'' of
                None \<Rightarrow> (Failed ValidationFailed ''UpdateFlightGate'', v, tbl, [])
              | Some g \<Rightarrow>
                  (Continue, v,
                   update_item tbl (''FLIGHT#'' @ fid, ''METADATA'') [(''gate'', AttrS g)],
                   [Updated (''FLIGHT#'' @ fid, ''METADATA'') [(''gate'', AttrS g)]
                      (update_item tbl (''FLIGHT#'' @ fid, ''METADATA'') [(''gate'', AttrS g)])]))))"
  by (simp add: updateGate_def exec_task_def string_at_detail read_value_def
      split: option.splits)

lemma flight_gate_updated:
  "flight_gate (update_item tbl (''FLIGHT#'' @ fid, ''METADATA'') [(''gate'', AttrS g)]) fid = Some g"
  by (simp add: flight_gate_def get_item_update_item attr_S_def update_conv')

lemma after_gate_tasks:
  "\<forall>t \<in> set (tasks (Next getBookings (Next (createProcessBookingsMap mt) (Succeed n)))).
     \<not> is_update t"
  by (simp add: workflow_defs)

text \<open>
  Claim C8. In every execution of the Gate-Change workflow, either nothing at all happens
  (UpdateFlightGate failed, or the trigger lacks the flight or the gate) or the first
  effect is the update of the flight's gate to the new value; everything the bookings
  query and ProcessBookings do comes after it: no further update, and every call of the
  message generator finds the new gate in the store.
\<close>

theorem gate_updated_first:
  "log_of (run e createGateChangeWorkflow d tbl) = [] \<or>
   (\<exists>fid g rest.
      attr_S d ''flight_id'' = Some fid \<and> attr_S d ''new_gate'' = Some g \<and>
      log_of (run e createGateChangeWorkflow d tbl) =
        Updated (''FLIGHT#'' @ fid, ''METADATA'') [(''gate'', AttrS g)]
          (update_item tbl (''FLIGHT#'' @ fid, ''METADATA'') [(''gate'', AttrS g)]) # rest \<and>
      list_all (sees_gate fid g) rest)"
proof -
  let ?rest = "Next getBookings
      (Next (createProcessBookingsMap ''GATE_CHANGE_NOTIFICATION'') (Succeed ''WorkflowComplete''))"
  have split: "exec e createGateChangeWorkflow (start d) tbl =
      and_then (exec e updateGate (start d) tbl) (\<lambda>v' tbl'. exec e ?rest v' tbl')"
    unfolding createGateChangeWorkflow_def by (simp add: exec_Next_assoc) (simp add: exec_Next)
  show ?thesis
  proof (cases "\<exists>v' tbl' l. exec e updateGate (start d) tbl = (Continue, v', tbl', l)")
    case False
    then have "snd (snd (snd (exec e updateGate (start d) tbl))) = []"
      by (auto simp: exec_updateGate split: option.splits)
    with False have "log_of (run e createGateChangeWorkflow d tbl) = []"
      by (cases "exec e updateGate (start d) tbl" rule: prod_cases4)
        (auto simp: run_def log_of_def split and_then_def split: outcome.splits)
    then show ?thesis by simp
  next
    case True
    then obtain fid g where fid: "attr_S d ''flight_id'' = Some fid"
      and g: "attr_S d ''new_gate'' = Some g"
      and u: "exec e updateGate (start d) tbl =
        (Continue, start d, update_item tbl (''FLIGHT#'' @ fid, ''METADATA'') [(''gate'', AttrS g)],
         [Updated (''FLIGHT#'' @ fid, ''METADATA'') [(''gate'', AttrS g)]
            (update_item tbl (''FLIGHT#'' @ fid, ''METADATA'') [(''gate'', AttrS g)])])"
      by (auto simp: exec_updateGate start_def split: option.splits)
    let ?s = "update_item tbl (''FLIGHT#'' @ fid, ''METADATA'') [(''gate'', AttrS g)]"
    have fg: "flight_gate ?s fid = Some g" by (rule flight_gate_updated)
    have "keeps (\<lambda>v. True) (\<lambda>t. t = ?s) (sees_gate fid g) (exec e ?rest (start d) ?s)"
    proof (rule exec_keeps)
      show "\<forall>t\<in>set (tasks ?rest). task_keeps (\<lambda>v. True) (\<lambda>t. t = ?s) (sees_gate fid g) t"
      proof
        fix t assume "t \<in> set (tasks ?rest)"
        with after_gate_tasks have "\<not> is_update t" by blast
        then show "task_keeps (\<lambda>v. True) (\<lambda>t. t = ?s) (sees_gate fid g) t"
          by (rule task_keeps_read_only) (use fg in simp_all)
      qed
    qed (simp_all add: steady_def)
    then obtain r v' l where rest: "exec e ?rest (start d) ?s = (r, v', ?s, l)"
      and l: "list_all (sees_gate fid g) l"
      by (cases "exec e ?rest (start d) ?s" rule: prod_cases4) (auto simp: keeps_def)
    have "log_of (run e createGateChangeWorkflow d tbl) =
        Updated (''FLIGHT#'' @ fid, ''METADATA'') [(''gate'', AttrS g)] ?s # l"
      using u rest by (simp add: run_def log_of_def split and_then_def del: exec.simps)
    with fid g l show ?thesis by blast
  qed
qed

lemma gate_sample_length:
  "length (log_of (run no_faults createGateChangeWorkflow gate_detail full_store)) = 8"
  by (simp add: log_of_def workflow_defs sample_defs engine_defs)

text \<open>The sample run: the gate update, then seven notification effects.\<close>

theorem gate_updated_first_witness:
  "\<exists>rest.
     log_of (run no_faults createGateChangeWorkflow gate_detail full_store) =
       Updated (''FLIGHT#F1'', ''METADATA'') [(''gate'', AttrS ''B7'')]
         (update_item full_store (''FLIGHT#F1'', ''METADATA'') [(''gate'', AttrS ''B7'')]) # rest \<and>
     length rest = 7 \<and> list_all (sees_gate ''F1'' ''B7'') rest"
proof -
  have ne: "log_of (run no_faults createGateChangeWorkflow gate_detail full_store) \<noteq> []"
    using gate_sample_length by auto
  have f: "attr_S gate_detail ''flight_id'' = Some ''F1''"
    and g: "attr_S gate_detail ''new_gate'' = Some ''B7''"
    by (simp_all add: gate_detail_def attr_S_def)
  from gate_updated_first [of no_faults gate_detail full_store] ne f g
  obtain rest where r: "log_of (run no_faults createGateChangeWorkflow gate_detail full_store) =
       Updated (''FLIGHT#F1'', ''METADATA'') [(''gate'', AttrS ''B7'')]
         (update_item full_store (''FLIGHT#F1'', ''METADATA'') [(''gate'', AttrS ''B7'')]) # rest"
    and s: "list_all (sees_gate ''F1'' ''B7'') rest"
    by auto
  from r gate_sample_length have "length rest = 7" by simp
  with r s show ?thesis by blast
qed

lemma effects_of_and_then:
  "effects_of (and_then r f) =
     (case r of
        (Continue, v, tbl, l) \<Rightarrow> l @ effects_of (f v tbl)
      | (Ended, v, tbl, l) \<Rightarrow> l
      | (Failed k c, v, tbl, l) \<Rightarrow> l)"
  by (cases r rule: prod_cases4)
     (auto simp: and_then_def effects_of_def split: prod.splits outcome.splits)

lemma sequential_log_Nil: "sequential_log xs []"
  by (simp add: sequential_log_def)


lemma booking_status_after_update:
  "booking_status_of (update_item tbl (''BOOKING#'' @ b, ''METADATA'') rebooking_values) bid =
     (if bid = b then Some ''NEEDS_REBOOKING'' else booking_status_of tbl bid)"
  by (simp add: booking_status_of_def get_item_update_item rebooking_values_def attr_S_def
      update_conv')

lemma all_need_rebooking_update:
  "all_need_rebooking xs tbl \<Longrightarrow>
   all_need_rebooking xs (update_item tbl (''BOOKING#'' @ b, ''METADATA'') rebooking_values)"
  by (auto simp: all_need_rebooking_def list_all_iff
      booking_status_after_update [unfolded append.simps] split: option.splits)

lemma exec_updateBookingStatus:
  "exec e updateBookingStatus v tbl =
     (case faults e ''UpdateBookingStatus'' (map_item v) of
        Some k \<Rightarrow> (Failed k ''UpdateBookingStatus'', v, tbl, [])
      | None \<Rightarrow>
         (case attr_S (map_item v) ''booking_id'' of
            None \<Rightarrow> (Failed ValidationFailed ''UpdateBookingStatus'', v, tbl, [])
          | Some b \<Rightarrow>
              (Continue, v, update_item tbl (''BOOKING#'' @ b, ''METADATA'') rebooking_values,
               [Updated (''BOOKING#'' @ b, ''METADATA'') rebooking_values
                  (update_item tbl (''BOOKING#'' @ b, ''METADATA'') rebooking_values)])))"
  by (simp add: updateBookingStatus_def exec_task_def string_at_item read_value_def
      rebooking_values_def split: option.splits)

lemma mark_items:
  assumes "run_all (map (iteration n [] v (\<lambda>v' tbl'. exec e updateBookingStatus v' tbl')) xs) tbl
             = (r, tbl', l)"
    and "all_need_rebooking ys tbl"
  shows "list_all is_booking_update l \<and> (r = Continue \<longrightarrow> all_need_rebooking (ys @ xs) tbl')"
  using assms
proof (induction xs arbitrary: tbl ys r tbl' l)
  case Nil
  then show ?case by simp
next
  case (Cons x xs)
  let ?f = "iteration n [] v (\<lambda>v' tbl'. exec e updateBookingStatus v' tbl') x tbl"
  show ?case
  proof (cases "\<exists>b. faults e ''UpdateBookingStatus'' x = None \<and> attr_S x ''booking_id'' = Some b")
    case False
    then have "\<exists>k c. ?f = (Failed k c, v\<lparr>map_item := x\<rparr>, tbl, [])"
      by (auto simp: iteration_def iteration_input_def exec_updateBookingStatus
          split: option.splits)
    with Cons.prems(1) show ?thesis by auto
  next
    case True
    then obtain b where b: "faults e ''UpdateBookingStatus'' x = None"
      "attr_S x ''booking_id'' = Some b" by blast
    let ?t = "update_item tbl (''BOOKING#'' @ b, ''METADATA'') rebooking_values"
    have f: "?f = (Continue, v\<lparr>map_item := x\<rparr>, ?t,
        [Updated (''BOOKING#'' @ b, ''METADATA'') rebooking_values ?t])"
      using b by (simp add: iteration_def iteration_input_def exec_updateBookingStatus)
    obtain r2 t2 l2 where rest:
      "run_all (map (iteration n [] v (\<lambda>v' tbl'. exec e updateBookingStatus v' tbl')) xs) ?t
         = (r2, t2, l2)"
      by (cases "run_all (map (iteration n [] v (\<lambda>v' tbl'. exec e updateBookingStatus v' tbl')) xs) ?t")
         auto
    have ys: "all_need_rebooking (ys @ [x]) ?t"
      using all_need_rebooking_update [OF Cons.prems(2), of b] b
      by (simp add: all_need_rebooking_def booking_status_after_update [unfolded append.simps])
    from Cons.IH [OF rest ys]
    have ih: "list_all is_booking_update l2" "r2 = Continue \<longrightarrow> all_need_rebooking (ys @ x # xs) t2"
      by simp_all
    from Cons.prems(1) f rest have "r = r2" "tbl' = t2"
      "l = Updated (''BOOKING#'' @ b, ''METADATA'') rebooking_values ?t # l2"
      by simp_all
    with ih show ?thesis by simp
  qed
qed


lemma exec_updateFlightCancelled:
  "exec e updateFlightCancelled v tbl =
     (case faults e ''UpdateFlightStatus'' (map_item v) of
        Some k \<Rightarrow> (Failed k ''UpdateFlightStatus'', v, tbl, [])
      | None \<Rightarrow>
         (case attr_S (detail v) ''flight_id'' of
            None \<Rightarrow> (Failed ValidationFailed ''UpdateFlightStatus'', v, tbl, [])
          | Some fid \<Rightarrow>
              (Continue, v, update_item tbl (''FLIGHT#'' @ fid, ''METADATA'') cancelled_values,
               [Updated (''FLIGHT#'' @ fid, ''METADATA'') cancelled_values
                  (update_item tbl (''FLIGHT#'' @ fid, ''METADATA'') cancelled_values)])))"
  by (simp add: updateFlightCancelled_def exec_task_def string_at_detail read_value_def
      cancelled_values_def split: option.splits)

lemma effects_of_Succeed: "effects_of (exec e (Succeed n) v tbl) = []"
  by (simp add: effects_of_def)

lemma tail_flight:
  "list_all is_flight_update (effects_of (exec e (Next updateFlightCancelled (Succeed n)) v t))"
  by (simp add: exec_Next [of e updateFlightCancelled] effects_of_and_then
      exec_updateFlightCancelled effects_of_Succeed split: option.splits del: exec.simps)

lemma process_bookings_tasks:
  "set (tasks (createProcessBookingsMap mt)) =
     {DynamoGetItem ''PASSENGER#'' (ItemField ''passenger_id'') ''METADATA'',
      LambdaInvoke mt,
      EventBridgePutEvents ''notification.email''
             [(''to'', PassengerAttr ''email''),
              (''subject'', MessagePart ''email_subject''),
              (''body'', MessagePart ''email_body'')],
      EventBridgePutEvents ''notification.sms''
             [(''to'', PassengerAttr ''phone''),
              (''message'', MessagePart ''sms_body'')]}"
  by (auto simp: workflow_defs)

lemma tail_notify:
  assumes "all_need_rebooking A s"
  shows "\<exists>ns fs.
     effects_of (exec e (Next (createProcessBookingsMap ''CANCELLATION_NOTIFICATION'')
                           (Next updateFlightCancelled (Succeed n))) v s) = ns @ fs \<and>
     list_all (notifies_after A) ns \<and> list_all is_flight_update fs"
proof -
  let ?pb = "createProcessBookingsMap ''CANCELLATION_NOTIFICATION''"
  have "keeps (\<lambda>v. True) (\<lambda>t. t = s) (notifies_after A) (exec e ?pb v s)"
  proof (rule exec_keeps)
    show "\<forall>t\<in>set (tasks ?pb). task_keeps (\<lambda>v. True) (\<lambda>t. t = s) (notifies_after A) t"
      unfolding process_bookings_tasks
      using assms by (auto intro!: task_keeps_read_only)
  qed (simp_all add: steady_def)
  then obtain r v' l where pb: "exec e ?pb v s = (r, v', s, l)"
    and l: "list_all (notifies_after A) l"
    by (cases "exec e ?pb v s" rule: prod_cases4) (auto simp: keeps_def)
  show ?thesis
  proof (cases r)
    case Continue
    have "effects_of (exec e (Next ?pb (Next updateFlightCancelled (Succeed n))) v s) =
        l @ effects_of (exec e (Next updateFlightCancelled (Succeed n)) v' s)"
      using pb Continue by (simp add: exec_Next [of e ?pb] effects_of_and_then del: exec.simps)
    with l tail_flight show ?thesis by blast
  next
    case Ended
    have "effects_of (exec e (Next ?pb (Next updateFlightCancelled (Succeed n))) v s) = l @ []"
      using pb Ended by (simp add: exec_Next [of e ?pb] effects_of_and_then del: exec.simps)
    with l show ?thesis by (intro exI [of _ l] exI [of _ "[]"]) simp
  next
    case (Failed k c)
    have "effects_of (exec e (Next ?pb (Next updateFlightCancelled (Succeed n))) v s) = l @ []"
      using pb Failed by (simp add: exec_Next [of e ?pb] effects_of_and_then del: exec.simps)
    with l show ?thesis by (intro exI [of _ l] exI [of _ "[]"]) simp
  qed
qed

lemma tail_mark:
  assumes "Items v = Some A"
  shows "sequential_log A
     (effects_of (exec e (Next markForRebooking
        (Next (createProcessBookingsMap ''CANCELLATION_NOTIFICATION'')
           (Next updateFlightCancelled (Succeed n)))) v tbl))"
proof -
  let ?rest = "Next (createProcessBookingsMap ''CANCELLATION_NOTIFICATION'')
           (Next updateFlightCancelled (Succeed n))"
  let ?its = "map (iteration ''MarkBookingsForRebooking'' [] v
                 (\<lambda>v' tbl'. exec e updateBookingStatus v' tbl')) A"
  obtain r s l where ra: "run_all ?its tbl = (r, s, l)" by (cases "run_all ?its tbl") auto
  have m: "exec e markForRebooking v tbl = (r, v, s, l)"
    using assms ra by (simp add: markForRebooking_def joined_def)
  have none: "all_need_rebooking [] tbl" by (simp add: all_need_rebooking_def)
  from mark_items [OF ra none]
  have us: "list_all is_booking_update l" and fin: "r = Continue \<longrightarrow> all_need_rebooking A s"
    by simp_all
  show ?thesis
  proof (cases "r = Continue")
    case True
    with fin have "all_need_rebooking A s" by simp
    from tail_notify [OF this, of e n v] obtain ns fs where
      t: "effects_of (exec e ?rest v s) = ns @ fs" "list_all (notifies_after A) ns"
        "list_all is_flight_update fs" by blast
    have "effects_of (exec e (Next markForRebooking ?rest) v tbl) = l @ ns @ fs"
      using m True t(1) by (simp add: exec_Next [of e markForRebooking] effects_of_and_then del: exec.simps)
    with us t show ?thesis unfolding sequential_log_def by blast
  next
    case False
    have "effects_of (exec e (Next markForRebooking ?rest) v tbl) = l @ [] @ []"
      using m False
      by (cases r) (simp_all add: exec_Next [of e markForRebooking] effects_of_and_then del: exec.simps)
    with us show ?thesis unfolding sequential_log_def
      by (intro exI [of _ l] exI [of _ "[]"]) simp
  qed
qed

lemma exec_getBookings:
  "exec e getBookings v tbl =
     (case faults e ''GetAffectedBookings'' (map_item v) of
        Some k \<Rightarrow> (Failed k ''GetAffectedBookings'', v, tbl, [])
      | None \<Rightarrow>
         (case attr_S (detail v) ''flight_id'' of
            None \<Rightarrow> (Failed ValidationFailed ''GetAffectedBookings'', v, tbl, [])
          | Some fid \<Rightarrow>
              (Continue,
               v\<lparr>Items := Some (query_prefix tbl (''FLIGHT#'' @ fid) ''BOOKING#''),
                 Count := Some (int (length (query_prefix tbl (''FLIGHT#'' @ fid) ''BOOKING#'')))\<rparr>,
               tbl, [])))"
  by (simp add: getBookings_def exec_task_def string_at_detail split: option.splits)

text \<open>
  Claim C4. In every execution of the Cancellation workflow the log is sequential: the
  booking updates of step 2 (each setting NEEDS_REBOOKING), then the notification effects
  of step 3, then the flight update of step 4; and every call of the message generator
  finds each affected booking with status NEEDS_REBOOKING in the store.
\<close>

theorem cancellation_steps_sequential:
  "sequential_log (affected_bookings d tbl)
     (log_of (run e createCancellationWorkflow d tbl))"
proof -
  let ?rest = "Next markForRebooking
        (Next (createProcessBookingsMap ''CANCELLATION_NOTIFICATION'')
           (Next updateFlightCancelled (Succeed ''WorkflowComplete'')))"
  have shape: "exec e createCancellationWorkflow = exec e (Next getBookings ?rest)"
    unfolding createCancellationWorkflow_def by (simp only: exec_Next_assoc)
  have log: "log_of (run e createCancellationWorkflow d tbl) =
      effects_of (exec e (Next getBookings ?rest) (start d) tbl)"
    by (simp add: run_def log_of_def effects_of_def shape split: prod.splits del: exec.simps)
  show ?thesis
  proof (cases "\<exists>v'. exec e getBookings (start d) tbl = (Continue, v', tbl, [])")
    case False
    then have "effects_of (exec e (Next getBookings ?rest) (start d) tbl) = []"
      by (auto simp: exec_Next [of e getBookings] effects_of_and_then exec_getBookings
          split: option.splits simp del: exec.simps)
    then show ?thesis by (simp add: log sequential_log_Nil)
  next
    case True
    then obtain v' where g: "exec e getBookings (start d) tbl = (Continue, v', tbl, [])" by blast
    then have items: "Items v' = Some (affected_bookings d tbl)"
      by (auto simp: exec_getBookings affected_bookings_def start_def split: option.splits)
    have "effects_of (exec e (Next getBookings ?rest) (start d) tbl) =
        effects_of (exec e ?rest v' tbl)"
      using g by (simp add: exec_Next [of e getBookings] effects_of_and_then del: exec.simps)
    with tail_mark [OF items, of e "''WorkflowComplete''" tbl] show ?thesis
      by (simp add: log)
  qed
qed

text \<open>The sample run: three affected bookings, eleven effects.\<close>

theorem cancellation_steps_sequential_witness:
  "length (affected_bookings cancel_detail full_store) = 3 \<and>
   length (log_of (run no_faults createCancellationWorkflow cancel_detail full_store)) = 11 \<and>
   sequential_log (affected_bookings cancel_detail full_store)
     (log_of (run no_faults createCancellationWorkflow cancel_detail full_store))"
proof -
  have "length (affected_bookings cancel_detail full_store) = 3"
    by (simp add: affected_bookings_def query_prefix_def attr_S_def sample_defs)
  with cancellation_sample_length
    cancellation_steps_sequential [of cancel_detail full_store no_faults]
  show ?thesis by simp
qed

section \<open>Re-running the Delay workflow\<close>

lemma fold_update_fixed:
  "\<forall>(a, x) \<in> set vals. map_of it a = Some x \<Longrightarrow>
   fold (\<lambda>(a, x). AList.update a x) vals it = it"
  by (induction vals) (auto simp: update_triv)

lemma fold_update_idem:
  assumes "distinct (map fst vals)"
  shows "fold (\<lambda>(a, x). AList.update a x) vals (fold (\<lambda>(a, x). AList.update a x) vals it) =
         fold (\<lambda>(a, x). AList.update a x) vals it"
proof (rule fold_update_fixed)
  show "\<forall>(a, x) \<in> set vals. map_of (fold (\<lambda>(a, x). AList.update a x) vals it) a = Some x"
    using assms
    by (auto simp: map_of_fold_update map_of_rev_distinct map_add_def split: option.splits)
qed

lemma update_item_idem:
  assumes "distinct (map fst vals)"
  shows "update_item (update_item tbl k vals) k vals = update_item tbl k vals"
proof -
  define base where "base = (case map_of tbl k of
      None \<Rightarrow> [(''PK'', AttrS (fst k)), (''SK'', AttrS (snd k))] | Some it \<Rightarrow> it)"
  define it1 where "it1 = fold (\<lambda>(a, x). AList.update a x) vals base"
  have u: "update_item tbl k vals = AList.update k it1 tbl"
    by (simp add: update_item_def base_def it1_def)
  have "update_item (AList.update k it1 tbl) k vals =
      AList.update k (fold (\<lambda>(a, x). AList.update a x) vals it1) (AList.update k it1 tbl)"
    by (simp add: update_item_def update_conv')
  also have "\<dots> = AList.update k it1 (AList.update k it1 tbl)"
    by (simp add: it1_def fold_update_idem [OF assms])
  also have "\<dots> = AList.update k it1 tbl" by (simp add: update_last)
  finally show ?thesis by (simp add: u)
qed

lemma delay_update_idem: "delay_update d (delay_update d tbl) = delay_update d tbl"
proof (cases "attr_S d ''flight_id''")
  case None
  then show ?thesis by (simp add: delay_update_def)
next
  case (Some fid)
  show ?thesis
  proof (cases "delayed_values d")
    case None
    with Some show ?thesis by (simp add: delay_update_def)
  next
    case (Some vals)
    then have "distinct (map fst vals)"
      by (auto simp: delayed_values_def split: option.splits attr.splits)
    from update_item_idem [OF this] Some \<open>attr_S d ''flight_id'' = Some fid\<close>
    show ?thesis by (simp add: delay_update_def)
  qed
qed

lemma delayed_read_values:
  "read_values [(''status'', ConstString ''DELAYED''),
           (''delay_minutes'', NumberAt (DetailField ''delay_minutes'')),
           (''delay_reason'', StringAt (DetailField ''reason'')),
           (''GSI1PK'', ConstString ''DELAYED'')] v = delayed_values (detail v)"
  by (simp add: read_value_def read_path_def string_at_detail delayed_values_def
      split: option.splits attr.splits)

lemma delay_tasks:
  "set (tasks createDelayWorkflow) =
     insert (DynamoQuery ''FLIGHT#'' (DetailField ''flight_id'') ''BOOKING#'')
       (insert (SnsPublish ''DelayNotification'')
          (insert (DynamoUpdateItem ''FLIGHT#'' (DetailField ''flight_id'') ''METADATA''
            [(''status'', ConstString ''DELAYED''),
             (''delay_minutes'', NumberAt (DetailField ''delay_minutes'')),
             (''delay_reason'', StringAt (DetailField ''reason'')),
             (''GSI1PK'', ConstString ''DELAYED'')])
           (set (tasks (createProcessBookingsMap ''DELAY_NOTIFICATION'')))))"
  by (auto simp: createDelayWorkflow_def getBookings_def notifyFailure_def
      parallelExecution_def checkBookings_def updateFlightDelayed_def)

lemma delay_task_keeps:
  assumes "t \<in> set (tasks createDelayWorkflow)"
  shows "task_keeps (\<lambda>v. detail v = d) (\<lambda>t. t = tbl \<or> t = delay_update d tbl) (\<lambda>x. True) t"
proof (cases "is_update t")
  case False
  then show ?thesis
    by (cases t) (auto simp: task_keeps_def keeps_def exec_task_def split: option.splits)
next
  case True
  with assms have t: "t = DynamoUpdateItem ''FLIGHT#'' (DetailField ''flight_id'') ''METADATA''
            [(''status'', ConstString ''DELAYED''),
             (''delay_minutes'', NumberAt (DetailField ''delay_minutes'')),
             (''delay_reason'', StringAt (DetailField ''reason'')),
             (''GSI1PK'', ConstString ''DELAYED'')]"
    unfolding delay_tasks process_bookings_tasks by auto
  show ?thesis
    unfolding task_keeps_def keeps_def
  proof (intro allI impI)
    fix e n and v :: vars and s
    assume v: "detail v = d" and s: "s = tbl \<or> s = delay_update d tbl"
    have "exec_task e n t v s = (Failed ValidationFailed n, v, s, []) \<or>
          (\<exists>x. exec_task e n t v s = (Continue, v, delay_update d s, x))"
      by (simp add: t exec_task_def string_at_detail delayed_read_values v delay_update_def
          split: option.splits del: read_values.simps)
    with v s show "case exec_task e n t v s of
        (r', v', tbl', l) \<Rightarrow> detail v' = d \<and> (tbl' = tbl \<or> tbl' = delay_update d tbl) \<and>
           list_all (\<lambda>x. True) l"
      by (auto simp: delay_update_idem list_all_iff)
  qed
qed

lemma delay_run_store:
  "store_of (run e createDelayWorkflow d tbl) = tbl \<or>
   store_of (run e createDelayWorkflow d tbl) = delay_update d tbl"
  using run_keeps [of createDelayWorkflow "\<lambda>v. detail v = d"
      "\<lambda>t. t = tbl \<or> t = delay_update d tbl" "\<lambda>x. True" d tbl e] delay_task_keeps
  by (simp add: steady_def start_def)

text \<open>
  Claim C6. Running the Delay workflow a second time on the same trigger, under the same
  conditions, leaves the whole store, and so the flight record with its status,
  delay_minutes, delay_reason and GSI1PK, as the first run left it. And once the
  UpdateFlightStatus step has been applied for the trigger, a re-run leaves the store as
  it is whatever fails during it: the step is idempotent.
\<close>

theorem delay_rerun_same_store:
  "store_of (run e createDelayWorkflow d (store_of (run e createDelayWorkflow d tbl))) =
     store_of (run e createDelayWorkflow d tbl) \<and>
   store_of (run e' createDelayWorkflow d (delay_update d tbl)) = delay_update d tbl"
proof -
  have fixed: "store_of (run e' createDelayWorkflow d (delay_update d tbl)) = delay_update d tbl"
    for e'
    using delay_run_store [of e' d "delay_update d tbl"] by (simp add: delay_update_idem)
  from delay_run_store [of e d tbl]
  have "store_of (run e createDelayWorkflow d (store_of (run e createDelayWorkflow d tbl))) =
     store_of (run e createDelayWorkflow d tbl)"
  proof
    assume a: "store_of (run e createDelayWorkflow d tbl) = tbl"
    then show ?thesis by simp
  next
    assume "store_of (run e createDelayWorkflow d tbl) = delay_update d tbl"
    then show ?thesis by (simp add: fixed)
  qed
  with fixed show ?thesis by simp
qed

text \<open>
  The sample trigger: after the update the flight record holds DELAYED, 25, weather and
  the index key DELAYED, and a re-run changes nothing.
\<close>

theorem delay_rerun_same_store_witness:
  "store_of (run no_faults createDelayWorkflow delay_detail
      (delay_update delay_detail full_store)) = delay_update delay_detail full_store \<and>
   get_item (delay_update delay_detail full_store) (''FLIGHT#F1'', ''METADATA'') =
     Some [(''PK'', AttrS ''FLIGHT#F1''), (''SK'', AttrS ''METADATA''),
           (''flight_id'', AttrS ''F1''), (''status'', AttrS ''DELAYED''),
           (''GSI1PK'', AttrS ''DELAYED''), (''gate'', AttrS ''A1''),
           (''delay_minutes'', AttrN 25), (''delay_reason'', AttrS ''weather'')]"
proof -
  have "get_item (delay_update delay_detail full_store) (''FLIGHT#F1'', ''METADATA'') =
     Some [(''PK'', AttrS ''FLIGHT#F1''), (''SK'', AttrS ''METADATA''),
           (''flight_id'', AttrS ''F1''), (''status'', AttrS ''DELAYED''),
           (''GSI1PK'', AttrS ''DELAYED''), (''gate'', AttrS ''A1''),
           (''delay_minutes'', AttrN 25), (''delay_reason'', AttrS ''weather'')]"
    by (simp add: delay_update_def delayed_values_def attr_S_def get_item_def update_item_def
        sample_defs)
  with delay_rerun_same_store [of no_faults delay_detail full_store no_faults]
  show ?thesis by simp
qed

section \<open>Bounded concurrency of Map states\<close>

lemma map_step_bound:
  "map_step limit s s' \<Longrightarrow> length (in_flight s) \<le> limit \<Longrightarrow> length (in_flight s') \<le> limit"
  by (induction rule: map_step.induct) auto

lemma map_reachable_bound:
  "map_reachable limit items s \<Longrightarrow> length (in_flight s) \<le> limit"
  by (induction rule: map_reachable.induct) (auto dest: map_step_bound)

lemma map_step_full:
  "map_step limit s s' \<Longrightarrow> length (in_flight s) = limit \<Longrightarrow> waiting s' = waiting s"
  by (induction rule: map_step.induct) auto

lemma map_limits_workflows: "map_limits_list workflows = [10, 10, 10, 10]"
  by (simp add: workflows_def workflow_defs)

text \<open>
  Claim C7. The three workflows have four Map states (ProcessBookings in each, and
  MarkBookingsForRebooking in Cancellation) and each has the limit 10. Under that limit
  no reachable state of a Map run has more than 10 items in flight, and while 10 are in
  flight no step takes an item from the queue: the waiting items stay queued until one in
  flight finishes.
\<close>

theorem map_concurrency_bounded:
  "map_limits_list workflows = [10, 10, 10, 10] \<and>
   (\<forall>limit \<in> set (map_limits_list workflows). \<forall>items s.
      map_reachable limit items s \<longrightarrow>
        length (in_flight s) \<le> 10 \<and>
        (\<forall>s'. length (in_flight s) = 10 \<longrightarrow> map_step limit s s' \<longrightarrow> waiting s' = waiting s))"
  using map_reachable_bound map_step_full
  by (auto simp: map_limits_workflows)

lemma start_many:
  "length xs \<le> limit \<Longrightarrow>
   map_reachable limit (xs @ ys) \<lparr>waiting = ys, in_flight = xs, finished = []\<rparr>"
proof (induction xs arbitrary: ys rule: rev_induct)
  case Nil
  show ?case using initial [of limit ys] by simp
next
  case (snoc x xs)
  then have r: "map_reachable limit (xs @ x # ys)
      \<lparr>waiting = x # ys, in_flight = xs, finished = []\<rparr>" by simp
  have "map_step limit \<lparr>waiting = x # ys, in_flight = xs, finished = []\<rparr>
      (\<lparr>waiting = x # ys, in_flight = xs, finished = []\<rparr>
         \<lparr>waiting := ys, in_flight := in_flight \<lparr>waiting = x # ys, in_flight = xs, finished = []\<rparr> @ [x]\<rparr>)"
    by (rule start_item) (use snoc.prems in simp_all)
  with r show ?case by (auto intro: later)
qed

text \<open>Twelve items: after ten starts, ten are in flight and two wait.\<close>

theorem map_concurrency_bounded_witness:
  "10 \<in> set (map_limits_list workflows) \<and>
   map_reachable 10 (replicate 10 [] @ [[], []])
     \<lparr>waiting = [[], []], in_flight = replicate 10 [], finished = []\<rparr> \<and>
   length (in_flight \<lparr>waiting = [[], []], in_flight = replicate 10 [], finished = []\<rparr>) \<le> 10"
proof -
  have m: "10 \<in> set (map_limits_list workflows)" by (simp add: map_limits_workflows)
  have r: "map_reachable 10 (replicate 10 [] @ [[], []])
     \<lparr>waiting = [[], []], in_flight = replicate 10 [], finished = []\<rparr>"
    by (rule start_many) simp
  from map_concurrency_bounded m r show ?thesis by blast
qed

end
